theory Spec2Isabelle
  imports Main
begin

section \<open>Python strings over ASCII\<close>

text \<open>
  Identifiers of the C++ sources are ASCII. A Python \<^verbatim>\<open>str\<close> of ASCII characters is a
  \<^typ>\<open>string\<close>, and the case methods of \<^verbatim>\<open>str\<close> are modelled on ASCII
  characters only: there \<^verbatim>\<open>c.isupper()\<close> holds for \<^verbatim>\<open>A\<close>..\<^verbatim>\<open>Z\<close>,
  \<^verbatim>\<open>c.lower()\<close> adds 32 to those and \<^verbatim>\<open>c.upper()\<close> subtracts 32 from
  \<^verbatim>\<open>a\<close>..\<^verbatim>\<open>z\<close>. Outside ASCII the methods of Python follow the Unicode tables,
  which are not modelled: the theorems of the claims apply the case functions to ASCII
  names only, either to a given name or under the hypothesis \<open>isascii\<close>, which is
  \<^verbatim>\<open>s.isascii()\<close>.
\<close>

definition isascii :: "string \<Rightarrow> bool" where
  "isascii s = (\<forall>c \<in> set s. (of_char c :: nat) < 128)"

definition is_upper_char :: "char \<Rightarrow> bool" where
  "is_upper_char c = (let n = (of_char c :: nat) in 65 \<le> n \<and> n \<le> 90)"

definition is_lower_char :: "char \<Rightarrow> bool" where
  "is_lower_char c = (let n = (of_char c :: nat) in 97 \<le> n \<and> n \<le> 122)"

definition lower_char :: "char \<Rightarrow> char" where
  "lower_char c = (if is_upper_char c then char_of (of_char c + (32::nat)) else c)"

definition upper_char :: "char \<Rightarrow> char" where
  "upper_char c = (if is_lower_char c then char_of (of_char c - (32::nat)) else c)"

text \<open>\<^verbatim>\<open>s.lower()\<close> and \<^verbatim>\<open>s.upper()\<close>.\<close>

definition lower :: "string \<Rightarrow> string" where
  "lower s = map lower_char s"

definition upper :: "string \<Rightarrow> string" where
  "upper s = map upper_char s"

text \<open>\<^verbatim>\<open>s.isupper()\<close>: at least one cased character, and no lowercase one.\<close>

definition isupper :: "string \<Rightarrow> bool" where
  "isupper s = ((\<exists>c \<in> set s. is_upper_char c) \<and> (\<forall>c \<in> set s. \<not> is_lower_char c))"

text \<open>\<^verbatim>\<open>s.strip(chars)\<close>, \<^verbatim>\<open>s.rstrip(chars)\<close>, \<^verbatim>\<open>s.startswith(p)\<close>, \<^verbatim>\<open>s.endswith(p)\<close>.\<close>

definition rstrip :: "char set \<Rightarrow> string \<Rightarrow> string" where
  "rstrip cs s = rev (dropWhile (\<lambda>c. c \<in> cs) (rev s))"

definition strip :: "char set \<Rightarrow> string \<Rightarrow> string" where
  "strip cs s = rstrip cs (dropWhile (\<lambda>c. c \<in> cs) s)"

definition startswith :: "string \<Rightarrow> string \<Rightarrow> bool" where
  "startswith s p = (take (length p) s = p)"

definition endswith :: "string \<Rightarrow> string \<Rightarrow> bool" where
  "endswith s p = (length p \<le> length s \<and> drop (length s - length p) s = p)"

text \<open>\<^verbatim>\<open>s.split(d)\<close> for a one-character separator: never the empty list.\<close>

fun split_on :: "char \<Rightarrow> string \<Rightarrow> string list" where
  "split_on d [] = [[]]"
| "split_on d (c # cs) =
     (if c = d then [] # split_on d cs
      else (let r = split_on d cs in (c # hd r) # tl r))"

text \<open>\<^verbatim>\<open>d.join(parts)\<close> for a one-character separator.\<close>

fun join_on :: "char \<Rightarrow> string list \<Rightarrow> string" where
  "join_on d [] = []"
| "join_on d [p] = p"
| "join_on d (p # q # ps) = p @ d # join_on d (q # ps)"

text \<open>The slice \<^verbatim>\<open>xs[a:b]\<close> for indices that are not negative.\<close>

definition py_slice :: "'a list \<Rightarrow> nat \<Rightarrow> nat \<Rightarrow> 'a list" where
  "py_slice xs a b = drop a (take b xs)"

text \<open>The exceptions the modelled functions can raise.\<close>

datatype py_error = AttributeError | IndexError | KeyError | ValueError | FileNotFoundError

section \<open>Identifier normalizer\<close>

text \<open>
  \<^verbatim>\<open>split_identifier\<close> (autoswig.py, lines 47 to 62). One iteration of the loop over
  \<^verbatim>\<open>range(len(identifier) - 1)\<close> is \<open>split_step\<close>, on the pair of
  \<^verbatim>\<open>prev_split\<close> and \<^verbatim>\<open>parts\<close>.
\<close>

definition split_step :: "string \<Rightarrow> nat \<Rightarrow> nat \<times> string list \<Rightarrow> nat \<times> string list" where
  "split_step identifier i st =
     (case st of (prev_split, parts) \<Rightarrow>
        if is_upper_char (identifier ! (i + 1))
        then (i + 1, parts @ [lower (py_slice identifier prev_split (i + 1))])
        else (prev_split, parts))"

definition split_identifier :: "string \<Rightarrow> string list" where
  "split_identifier identifier =
     (if CHR ''_'' \<in> set identifier then map lower (split_on CHR ''_'' identifier)
      else (case fold (split_step identifier) [0 ..< length identifier - 1] (0, []) of
              (prev_split, parts) \<Rightarrow>
                (let last = drop prev_split identifier
                 in if last \<noteq> [] then parts @ [lower last] else parts)))"

text \<open>
  \<^verbatim>\<open>camel_case\<close> (lines 65 to 83). The argument is a \<^verbatim>\<open>str\<close>, or a list or tuple
  of \<^verbatim>\<open>str\<close>; line 66 calls \<^verbatim>\<open>identifier.strip('_')\<close> before the type is looked
  at, and a list or a tuple has no attribute \<^verbatim>\<open>strip\<close>. The loop of lines 78 and 79
  is \<open>camel_case_parts\<close>; \<^verbatim>\<open>name_parts[i][0]\<close> raises on an empty part.
\<close>

datatype py_identifier = Str string | Seq "string list"

fun camel_case_parts :: "string list \<Rightarrow> py_error + string list" where
  "camel_case_parts [] = Inr []"
| "camel_case_parts (p # ps) =
     (case p of
        [] \<Rightarrow> Inl IndexError
      | c # cs \<Rightarrow>
          (case camel_case_parts ps of
             Inl e \<Rightarrow> Inl e
           | Inr r \<Rightarrow> Inr ((upper_char c # cs) # r)))"

definition strip_attr :: "py_identifier \<Rightarrow> py_error + py_identifier" where
  "strip_attr identifier =
     (case identifier of
        Str s \<Rightarrow> Inr (Str (strip {CHR ''_''} s))
      | Seq _ \<Rightarrow> Inl AttributeError)"

definition camel_case_body :: "py_identifier \<Rightarrow> py_error + py_identifier" where
  "camel_case_body identifier =
     (case identifier of
        Str s \<Rightarrow>
          (let s' = (if isupper s \<and> CHR ''_'' \<notin> set s then lower s else s)
           in case camel_case_parts (split_identifier s') of
                Inl e \<Rightarrow> Inl e
              | Inr name_parts \<Rightarrow> Inr (Str (concat name_parts)))
      | Seq name_parts \<Rightarrow>
          (case camel_case_parts name_parts of
             Inl e \<Rightarrow> Inl e
           | Inr name_parts' \<Rightarrow> Inr (Seq name_parts')))"

definition camel_case :: "py_identifier \<Rightarrow> py_error + py_identifier" where
  "camel_case identifier =
     (case strip_attr identifier of
        Inl e \<Rightarrow> Inl e
      | Inr identifier' \<Rightarrow> camel_case_body identifier')"

text \<open>The specification's words: uppercase the first character of a segment.\<close>

definition capitalize :: "string \<Rightarrow> string" where
  "capitalize s = (case s of [] \<Rightarrow> [] | c # cs \<Rightarrow> upper_char c # cs)"

text \<open>
  The specification's words for an identifier without underscore: a new segment starts at
  each uppercase letter. The first character opens the first segment.
\<close>

fun segments_at_upper :: "string \<Rightarrow> string list" where
  "segments_at_upper [] = []"
| "segments_at_upper [c] = [[c]]"
| "segments_at_upper (c # d # cs) =
     (if is_upper_char d then [c] # segments_at_upper (d # cs)
      else (let r = segments_at_upper (d # cs) in (c # hd r) # tl r))"

section \<open>Class hierarchy pass\<close>

text \<open>
  \<^verbatim>\<open>DefineRefCountedPass\<close> (lines 214 to 255). The class attribute
  \<^verbatim>\<open>parent_classes\<close> is a \<^verbatim>\<open>dict\<close> from a class name to the \<^verbatim>\<open>set\<close> of the
  names of its direct bases. A \<^verbatim>\<open>dict\<close> keeps its keys in insertion order, so it is an
  association list; a \<^verbatim>\<open>set\<close> of names is the list of its elements in the order the
  loop of line 234 meets them, which the theorems leave arbitrary.
\<close>

type_synonym hierarchy = "(string \<times> string list) list"

text \<open>\<^verbatim>\<open>s.add(x)\<close> and \<^verbatim>\<open>d[k] = v\<close>.\<close>

definition set_add :: "'a \<Rightarrow> 'a list \<Rightarrow> 'a list" where
  "set_add x xs = (if x \<in> set xs then xs else xs @ [x])"

fun dict_set :: "'k \<Rightarrow> 'v \<Rightarrow> ('k \<times> 'v) list \<Rightarrow> ('k \<times> 'v) list" where
  "dict_set k v [] = [(k, v)]"
| "dict_set k v (p # ps) = (if fst p = k then (k, v) # ps else p # dict_set k v ps)"

text \<open>
  The nodes the pass looks at: the kind of the cursor, the fully qualified name of the
  declaration, and the fully qualified names of the declarations of its
  \<^verbatim>\<open>CXX_BASE_SPECIFIER\<close> children, in order.
\<close>

datatype CursorKind =
    TRANSLATION_UNIT | NAMESPACE | CLASS_DECL | STRUCT_DECL | ENUM_DECL
  | ENUM_CONSTANT_DECL | VAR_DECL | CXX_METHOD | FUNCTION_DECL | FIELD_DECL | PARM_DECL
  | CXX_BASE_SPECIFIER | TYPE_ALIAS_DECL | UNEXPOSED_EXPR | INTEGER_LITERAL
  | FLOATING_LITERAL | OTHER_CURSOR

record class_node =
  cn_kind :: CursorKind
  cn_fqn :: string
  cn_bases :: "string list"

text \<open>
  \<^verbatim>\<open>visit\<close> (lines 241 to 255): one edge per base specifier. The names
  \<^verbatim>\<open>super_fqn\<close> and \<^verbatim>\<open>sub_fqn\<close> are those of the source: \<^verbatim>\<open>super_fqn\<close> is the
  name of the visited class and \<^verbatim>\<open>sub_fqn\<close> the name of its base.
\<close>

definition add_base :: "string \<Rightarrow> string \<Rightarrow> hierarchy \<Rightarrow> hierarchy" where
  "add_base super_fqn sub_fqn parent_classes =
     (case map_of parent_classes super_fqn of
        Some bases_set \<Rightarrow> dict_set super_fqn (set_add sub_fqn bases_set) parent_classes
      | None \<Rightarrow> dict_set super_fqn (set_add sub_fqn []) parent_classes)"

definition refcounted_visit :: "class_node \<Rightarrow> hierarchy \<Rightarrow> hierarchy" where
  "refcounted_visit node parent_classes =
     (if cn_kind node = CLASS_DECL \<or> cn_kind node = STRUCT_DECL
      then fold (add_base (cn_fqn node)) (cn_bases node) parent_classes
      else parent_classes)"

text \<open>
  \<^verbatim>\<open>is_subclass_of\<close> (lines 228 to 238) and its loop over \<^verbatim>\<open>subclasses\<close>. The
  recursion has no visited set and need not end; the first argument bounds the depth of the
  calls, as the interpreter's recursion limit does, and \<open>None\<close> is the call that does not
  return within it.
\<close>

fun is_subclass_of :: "nat \<Rightarrow> hierarchy \<Rightarrow> string \<Rightarrow> string \<Rightarrow> (py_error + bool) option"
  and is_subclass_of_loop ::
    "nat \<Rightarrow> hierarchy \<Rightarrow> string list \<Rightarrow> string \<Rightarrow> (py_error + bool) option"
where
  "is_subclass_of 0 parent_classes class_name base_name = None"
| "is_subclass_of (Suc depth) parent_classes class_name base_name =
     (if class_name = base_name then Some (Inr True)
      else case map_of parent_classes class_name of
             None \<Rightarrow> Some (Inl KeyError)
           | Some subclasses \<Rightarrow>
               if base_name \<in> set subclasses then Some (Inr True)
               else is_subclass_of_loop depth parent_classes subclasses base_name)"
| "is_subclass_of_loop depth parent_classes [] base_name = Some (Inr False)"
| "is_subclass_of_loop depth parent_classes (subclass # rest) base_name =
     (if map_of parent_classes subclass \<noteq> None
      then (case is_subclass_of depth parent_classes subclass base_name of
              None \<Rightarrow> None
            | Some (Inl e) \<Rightarrow> Some (Inl e)
            | Some (Inr found) \<Rightarrow>
                if found then Some (Inr True)
                else is_subclass_of_loop depth parent_classes rest base_name)
      else is_subclass_of_loop depth parent_classes rest base_name)"

text \<open>
  \<^verbatim>\<open>on_end\<close> (lines 218 to 226): the lines written to \<^verbatim>\<open>_refcounted.i\<close>, one for
  each key that reaches \<^verbatim>\<open>Urho3D::RefCounted\<close>; an exception or a call that does not
  return ends the loop.
\<close>

fun refcounted_lines :: "nat \<Rightarrow> hierarchy \<Rightarrow> string list \<Rightarrow> (py_error + string list) option" where
  "refcounted_lines depth parent_classes [] = Some (Inr [])"
| "refcounted_lines depth parent_classes (cls_name # keys) =
     (case is_subclass_of depth parent_classes cls_name ''Urho3D::RefCounted'' of
        None \<Rightarrow> None
      | Some (Inl e) \<Rightarrow> Some (Inl e)
      | Some (Inr found) \<Rightarrow>
          (case refcounted_lines depth parent_classes keys of
             None \<Rightarrow> None
           | Some (Inl e) \<Rightarrow> Some (Inl e)
           | Some (Inr ls) \<Rightarrow>
               Some (Inr ((if found then [''URHO3D_REFCOUNTED('' @ cls_name @ '');'' @ [CHR 0x0A]]
                           else []) @ ls))))"

text \<open>The direct-base relation a hierarchy records, and its keys.\<close>

definition base_edges :: "hierarchy \<Rightarrow> (string \<times> string) set" where
  "base_edges parent_classes =
     {(c, b). \<exists>bases. map_of parent_classes c = Some bases \<and> b \<in> set bases}"

definition recorded :: "hierarchy \<Rightarrow> string \<Rightarrow> bool" where
  "recorded parent_classes c = (map_of parent_classes c \<noteq> None)"

section \<open>Constant extraction pass\<close>

text \<open>
  \<^verbatim>\<open>clang.cindex.TypeKind\<close>, as far as the program names its members, and the table
  \<^verbatim>\<open>builtin_to_cs\<close> (lines 18 to 44). The member \<^verbatim>\<open>INT\<close> is written \<open>INT_T\<close>.
\<close>

datatype TypeKind =
    VOID | BOOL | CHAR_U | UCHAR | CHAR16 | CHAR32 | USHORT | UINT | ULONG | ULONGLONG
  | UINT128 | CHAR_S | SCHAR | WCHAR | SHORT | INT_T | LONG | LONGLONG | INT128 | FLOAT
  | DOUBLE | LONGDOUBLE | NULLPTR | FLOAT128 | HALF | ENUM | OTHER_TYPE

fun builtin_to_cs :: "TypeKind \<Rightarrow> string option" where
  "builtin_to_cs VOID = Some ''void''"
| "builtin_to_cs BOOL = Some ''bool''"
| "builtin_to_cs CHAR_U = Some ''byte''"
| "builtin_to_cs UCHAR = Some ''byte''"
| "builtin_to_cs USHORT = Some ''ushort''"
| "builtin_to_cs UINT = Some ''uint''"
| "builtin_to_cs ULONG = Some ''uint''"
| "builtin_to_cs ULONGLONG = Some ''ulong''"
| "builtin_to_cs CHAR_S = Some ''char''"
| "builtin_to_cs SCHAR = Some ''char''"
| "builtin_to_cs SHORT = Some ''short''"
| "builtin_to_cs INT_T = Some ''int''"
| "builtin_to_cs LONG = Some ''int''"
| "builtin_to_cs LONGLONG = Some ''long''"
| "builtin_to_cs FLOAT = Some ''float''"
| "builtin_to_cs DOUBLE = Some ''double''"
| "builtin_to_cs NULLPTR = Some ''null''"
| "builtin_to_cs _ = None"

text \<open>The line feed, and the double quote of a string literal of the C++ source.\<close>

definition nl :: string where
  "nl = [CHR 0x0A]"

definition dquote :: char where
  "dquote = CHR 0x22"

text \<open>
  What the pass reads of a node. The syntax tree belongs to libclang and to the package
  \<^verbatim>\<open>walkcpp\<close>, so each field is the answer of one of their queries: the raw source text
  of a child is what \<^verbatim>\<open>read_raw_code\<close> returns for it, \<open>cv_unexposed_expr\<close> is
  \<^verbatim>\<open>node.find_child(kind=CursorKind.UNEXPOSED_EXPR)\<close>, \<open>cv_integer_literal\<close> and
  \<open>cv_floating_literal\<close> are \<^verbatim>\<open>node.find_any_child\<close> for these kinds,
  \<open>cv_is_builtin\<close> is \<^verbatim>\<open>is_builtin_type(node.type)\<close>, \<open>cv_canonical_kind\<close> is
  \<^verbatim>\<open>node.type.get_canonical().kind\<close> and \<open>cv_type_kind\<close> is \<^verbatim>\<open>node.c.type.kind\<close>.
  The wrapper node and its cursor \<^verbatim>\<open>node.c\<close> have the same spelling.
\<close>

record raw_child =
  rc_spelling :: string
  rc_code :: string

record var_node =
  cv_kind :: CursorKind
  cv_spelling :: string
  cv_parent_kind :: CursorKind
  cv_fqn :: string
  cv_type_spelling :: string
  cv_is_const_qualified :: bool
  cv_is_builtin :: bool
  cv_canonical_kind :: TypeKind
  cv_type_kind :: TypeKind
  cv_unexposed_expr :: "raw_child option"
  cv_integer_literal :: "raw_child option"
  cv_floating_literal :: "raw_child option"

text \<open>
  \<^verbatim>\<open>get_constant_value\<close> (lines 137 to 147). The regular expression substitution of
  line 141 is a parameter \<open>re_sub_assign\<close>, applied to the spelling of the node and to its
  raw text. The argument of \<^verbatim>\<open>rstrip\<close> at line 143 is not a raw string: its characters
  are the backslash, \<^verbatim>\<open>s\<close>, the line feed and the semicolon.
\<close>

definition get_constant_value ::
    "(string \<Rightarrow> string \<Rightarrow> string) \<Rightarrow> raw_child \<Rightarrow> string option" where
  "get_constant_value re_sub_assign node =
     (let ln = rc_code node;
          ln' = (if CHR ''='' \<in> set ln then re_sub_assign (rc_spelling node) ln
                 else rstrip {CHR 0x5C, CHR ''s'', CHR 0x0A, CHR '';''} ln)
      in if CHR '' '' \<in> set ln' then None else Some ln')"

text \<open>The truth value of an optional string: \<^verbatim>\<open>None\<close> and \<^verbatim>\<open>''\<close> are false.\<close>

definition truthy :: "string option \<Rightarrow> bool" where
  "truthy v = (case v of None \<Rightarrow> False | Some s \<Rightarrow> s \<noteq> [])"

text \<open>
  The state of the pass: the text written to \<^verbatim>\<open>_constants.i\<close> since it was opened, and
  the list \<^verbatim>\<open>cs_code\<close>, an attribute of the class \<^verbatim>\<open>DefineConstantsPass\<close>.
\<close>

record constants_state =
  fp :: string
  cs_code :: "string list"

text \<open>
  \<^verbatim>\<open>re.match(r'^operator[^\w]+.*$', spelling)\<close> of line 203, for a spelling without line
  feed: \<^verbatim>\<open>operator\<close> followed by a character that is not a word character.
\<close>

definition is_word_char :: "char \<Rightarrow> bool" where
  "is_word_char c =
     (is_upper_char c \<or> is_lower_char c \<or> c = CHR ''_''
      \<or> (let n = (of_char c :: nat) in 48 \<le> n \<and> n \<le> 57))"

definition is_operator_spelling :: "string \<Rightarrow> bool" where
  "is_operator_spelling s =
     (startswith s ''operator'' \<and> 8 < length s \<and> \<not> is_word_char (s ! 8))"

text \<open>
  \<^verbatim>\<open>re.sub(self.rx_deconst, '', spelling)\<close> of line 160: a leading \<^verbatim>\<open>const \<close> is
  removed.
\<close>

definition deconst :: "string \<Rightarrow> string" where
  "deconst s = (if startswith s ''const '' then drop 6 s else s)"

text \<open>
  The literal branch of \<^verbatim>\<open>visit\<close> (lines 166 to 187): the C\# type name and the value,
  from the type name computed at line 160.
\<close>

definition extract_literal ::
    "(string \<Rightarrow> string \<Rightarrow> string) \<Rightarrow> var_node \<Rightarrow> string \<Rightarrow> string \<times> string option" where
  "extract_literal re_sub_assign node type_name =
     (if cv_type_spelling node \<in> {''const ea::string'', ''const char*''}
      then (case cv_unexposed_expr node of
              Some node_expr \<Rightarrow> (''string'', get_constant_value re_sub_assign node_expr)
            | None \<Rightarrow> (type_name, None))
      else if cv_is_builtin node
      then (case (case cv_integer_literal node of
                    Some l \<Rightarrow> Some l
                  | None \<Rightarrow> cv_floating_literal node) of
              Some literal \<Rightarrow>
                (let v = get_constant_value re_sub_assign literal
                 in if truthy v
                    then (let type_kind = cv_canonical_kind node;
                              v' = (if type_kind \<in> {CHAR16, CHAR32, USHORT, UINT, ULONG,
                                                      ULONGLONG, UINT128}
                                    then rstrip {CHR ''U'', CHR ''u''} (the v) @ ''U''
                                    else if type_kind = FLOAT
                                    then rstrip {CHR ''F'', CHR ''f''} (the v) @ ''f''
                                    else the v)
                          in case builtin_to_cs type_kind of
                               Some cs \<Rightarrow> (cs, Some v')
                             | None \<Rightarrow> (type_name, None))
                    else (type_name, v))
            | None \<Rightarrow> (type_name, None))
      else (type_name, None))"

text \<open>
  \<^verbatim>\<open>DefineConstantsPass.visit\<close> (lines 149 to 211), without the decorator
  \<^verbatim>\<open>AstPass.once\<close> of \<^verbatim>\<open>walkcpp\<close>. The result is the value returned and the new
  state, or the exception \<^verbatim>\<open>camel_case\<close> raises.
\<close>

definition constants_visit ::
    "(string \<Rightarrow> string \<Rightarrow> string) \<Rightarrow> var_node \<Rightarrow> constants_state
       \<Rightarrow> py_error + bool \<times> constants_state" where
  "constants_visit re_sub_assign node st =
     (if endswith (cv_spelling node) ''/MathDefs.h'' then Inr (False, st)
      else if cv_kind node = VAR_DECL \<and> cv_parent_kind node = NAMESPACE
      then (let fqn = cv_fqn node
            in if startswith fqn ''Urho3D::IsFlagSet'' \<or> startswith fqn ''Urho3D::FlagSet''
                  \<or> startswith (cv_spelling node) ''E_''
                  \<or> startswith (cv_spelling node) ''P_''
               then Inr (False, st)
               else (case camel_case (Str (cv_spelling node)) of
                       Inl e \<Rightarrow> Inl e
                     | Inr (Seq _) \<Rightarrow> Inl ValueError
                     | Inr (Str idiomatic_name) \<Rightarrow>
                         if \<not> cv_is_const_qualified node then Inr (False, st)
                         else (case extract_literal re_sub_assign node
                                      (deconst (cv_type_spelling node)) of
                                 (type_name, v) \<Rightarrow>
                                   (let st' = st\<lparr>fp := fp st @ ''%ignore '' @ fqn @ '';'' @ nl\<rparr>
                                    in if truthy v
                                       then Inr (True, st'\<lparr>cs_code := cs_code st' @
                                              [''  public const '' @ type_name @ '' ''
                                               @ idiomatic_name @ '' = '' @ the v @ '';'' @ nl]\<rparr>)
                                       else Inr (True, st'\<lparr>fp := fp st' @ ''%constant ''
                                              @ (if cv_type_kind node = ENUM then ''enum '' else [])
                                              @ type_name @ '' '' @ idiomatic_name @ '' = ''
                                              @ fqn @ '';'' @ nl\<rparr>)))))
      else if cv_kind node \<in> {CXX_METHOD, FUNCTION_DECL}
              \<and> is_operator_spelling (cv_spelling node)
      then Inr (False, st)
      else Inr (True, st))"

text \<open>
  \<^verbatim>\<open>on_begin\<close> (lines 127 to 129) opens \<^verbatim>\<open>_constants.i\<close> with mode \<^verbatim>\<open>w+\<close>, which
  empties it; \<^verbatim>\<open>on_end\<close> (lines 131 to 135) writes the accumulated lines between the two
  lines of the pragma. The class attribute \<^verbatim>\<open>cs_code\<close> is not assigned by either.
\<close>

definition constants_on_begin :: "constants_state \<Rightarrow> constants_state" where
  "constants_on_begin st = st\<lparr>fp := []\<rparr>"

definition constants_on_end :: "constants_state \<Rightarrow> constants_state" where
  "constants_on_end st =
     st\<lparr>fp := fp st @ ''%pragma(csharp) modulecode=%{'' @ nl @ concat (cs_code st)
                 @ ''%}'' @ nl\<rparr>"

text \<open>
  The node of the declaration \<^verbatim>\<open>static const int kMax = 5;\<close> at namespace scope, with
  the fully qualified name left open: a const-qualified builtin type with an integer
  literal.
\<close>

definition kMax_node :: "string \<Rightarrow> var_node" where
  "kMax_node fqn =
     \<lparr>cv_kind = VAR_DECL, cv_spelling = ''kMax'', cv_parent_kind = NAMESPACE, cv_fqn = fqn,
      cv_type_spelling = ''const int'', cv_is_const_qualified = True, cv_is_builtin = True,
      cv_canonical_kind = INT_T, cv_type_kind = INT_T, cv_unexposed_expr = None,
      cv_integer_literal = Some \<lparr>rc_spelling = [], rc_code = ''5''\<rparr>,
      cv_floating_literal = None\<rparr>"

text \<open>
  The node of the declaration \<^verbatim>\<open>static const char* kName = "foo";\<close> at namespace scope.
  The variable is a pointer to \<^verbatim>\<open>const char\<close> and is not itself const: its type is not
  const-qualified, and libclang spells it \<^verbatim>\<open>const char *\<close>.
\<close>

definition kName_node :: "string \<Rightarrow> var_node" where
  "kName_node fqn =
     \<lparr>cv_kind = VAR_DECL, cv_spelling = ''kName'', cv_parent_kind = NAMESPACE, cv_fqn = fqn,
      cv_type_spelling = ''const char *'', cv_is_const_qualified = False,
      cv_is_builtin = False, cv_canonical_kind = OTHER_TYPE, cv_type_kind = OTHER_TYPE,
      cv_unexposed_expr = Some \<lparr>rc_spelling = [], rc_code = dquote # ''foo'' @ [dquote]\<rparr>,
      cv_integer_literal = None, cv_floating_literal = None\<rparr>"

section \<open>Property synthesis pass\<close>

text \<open>
  \<^verbatim>\<open>clang.cindex.AccessSpecifier\<close>, and the actions of \<^verbatim>\<open>walkcpp.passes.AstAction\<close>:
  the program names \<^verbatim>\<open>ENTER\<close> only, and \<open>LEAVE\<close> stands for every other action.
\<close>

datatype AccessSpecifier = PUBLIC | PROTECTED | PRIVATE | NO_ACCESS

datatype AstAction = ENTER | LEAVE

text \<open>
  A type descriptor: its spelling as written, \<^verbatim>\<open>type.spelling\<close>, and the spelling of its
  canonical type, \<^verbatim>\<open>type.get_canonical().spelling\<close>.
\<close>

record type_desc =
  td_spelling :: string
  td_canonical :: string

text \<open>
  What the pass reads of a member of a class: \<open>m_arguments\<close> are the types of
  \<^verbatim>\<open>c.get_arguments()\<close>, and \<open>m_result_type\<close> is \<^verbatim>\<open>c.result_type\<close>, which the
  program allows to be \<^verbatim>\<open>None\<close>. The children of the parent of the visited node,
  \<^verbatim>\<open>getter.parent.children\<close>, are passed next to it; \<^verbatim>\<open>find_children()\<close> is taken to
  list them all and \<^verbatim>\<open>find_children(spelling=s)\<close> those spelled \<^verbatim>\<open>s\<close>.
\<close>

record member =
  m_kind :: CursorKind
  m_access :: AccessSpecifier
  m_is_static :: bool
  m_is_virtual :: bool
  m_spelling :: string
  m_fqn :: string
  m_arguments :: "type_desc list"
  m_result_type :: "type_desc option"

text \<open>
  The state of the pass: the text written to the open file, the attributes
  \<^verbatim>\<open>properties\<close> and \<^verbatim>\<open>method_attribs\<close>, which do not exist before the first class is
  entered, and the lines printed.
\<close>

record properties_state =
  ps_fp :: string
  properties :: "string list option"
  method_attribs :: "string list option"
  stdout :: "string list"

text \<open>\<^verbatim>\<open>s.replace(old, new)\<close> for a non-empty \<^verbatim>\<open>old\<close>.\<close>

function replace_all :: "string \<Rightarrow> string \<Rightarrow> string \<Rightarrow> string" where
  "replace_all old new [] = []"
| "replace_all old new (c # cs) =
     (if old \<noteq> [] \<and> startswith (c # cs) old
      then new @ replace_all old new (drop (length old) (c # cs))
      else c # replace_all old new cs)"
  by pat_completeness auto
termination
  by (relation "measure (\<lambda>(old, new, s). length s)") auto

text \<open>
  The clean-up of the canonical spelling (lines 468 to 475). The two calls of
  \<^verbatim>\<open>str.replace\<close> are modelled; the three substitutions by regular expression that
  follow them are the parameter \<open>re_sub_rules\<close>.
\<close>

definition clean_cstype :: "(string \<Rightarrow> string) \<Rightarrow> string \<Rightarrow> string" where
  "clean_cstype re_sub_rules cstype =
     re_sub_rules
       (replace_all '', eastl::allocator>'' ''>''
          (replace_all ''eastl::basic_string<char, eastl::allocator>'' ''eastl::string'' cstype))"

text \<open>
  \<^verbatim>\<open>find_setter\<close> (lines 452 to 463), for the property name and the result type of the
  getter, and the search of line 465: the first child it accepts.
\<close>

definition find_setter :: "string \<Rightarrow> type_desc \<Rightarrow> member \<Rightarrow> bool" where
  "find_setter attribute_name result_type n =
     (if m_access n \<noteq> PUBLIC \<or> m_kind n \<noteq> CXX_METHOD then False
      else if \<not> m_is_virtual n \<and> \<not> m_is_static n \<and> m_spelling n = ''Set'' @ attribute_name
      then (let setter_parameters = m_arguments n
            in if length setter_parameters \<noteq> 1 then False
               else td_spelling (setter_parameters ! 0) = td_spelling result_type)
      else False)"

definition paired_setter :: "string \<Rightarrow> type_desc \<Rightarrow> member list \<Rightarrow> member option" where
  "paired_setter attribute_name result_type children =
     find (find_setter attribute_name result_type) children"

text \<open>
  The loop of lines 441 to 444: is the property name that of a public member, once
  camel-cased. \<^verbatim>\<open>camel_case\<close> is called for the public members only, and may raise.
\<close>

fun name_taken :: "string \<Rightarrow> member list \<Rightarrow> py_error + bool" where
  "name_taken attribute_name [] = Inr False"
| "name_taken attribute_name (c # cs) =
     (if m_access c = PUBLIC
      then (case camel_case (Str (m_spelling c)) of
              Inl e \<Rightarrow> Inl e
            | Inr r \<Rightarrow> if r = Str attribute_name then Inr True
                       else name_taken attribute_name cs)
      else name_taken attribute_name cs)"

text \<open>
  \<^verbatim>\<open>DefinePropertiesPass.visit\<close> (lines 391 to 572): the value returned (\<open>None\<close> for
  the bare \<^verbatim>\<open>return\<close> of line 403) and the new state, or the exception raised.
\<close>

definition emit_property ::
    "(string \<Rightarrow> string) \<Rightarrow> member \<Rightarrow> string \<Rightarrow> type_desc \<Rightarrow> member option
       \<Rightarrow> properties_state \<Rightarrow> py_error + bool option \<times> properties_state" where
  "emit_property re_sub_rules getter attribute_name result_type setter st =
     (case (properties st, method_attribs st) of
        (Some ps, Some ms) \<Rightarrow>
          (let cstype = clean_cstype re_sub_rules (td_canonical result_type);
               ps' = ps @ [''  public $typemap(cstype, '' @ cstype @ '') '' @ attribute_name @ '' {'',
                           ''    get { return '' @ m_spelling getter @ ''(); }''];
               ms' = ms @ [''%csmethodmodifiers '' @ m_fqn getter @ '' '' @ dquote # ''private''
                           @ dquote # '';'']
           in case setter of
                Some s \<Rightarrow>
                  Inr (Some True,
                       st\<lparr>properties :=
                            Some (ps' @ [''    set { '' @ m_spelling s @ ''(value); }'', ''  }'']),
                          method_attribs :=
                            Some (ms' @ [''%csmethodmodifiers '' @ m_fqn s @ '' '' @ dquote
                                         # ''private'' @ dquote # '';''])\<rparr>)
              | None \<Rightarrow>
                  Inr (Some True,
                       st\<lparr>properties := Some (ps' @ [''  }'']), method_attribs := Some ms'\<rparr>))
      | _ \<Rightarrow> Inl AttributeError)"

definition properties_leave :: "member \<Rightarrow> properties_state
    \<Rightarrow> py_error + bool option \<times> properties_state" where
  "properties_leave getter st =
     (if m_kind getter = CLASS_DECL
      then (case properties st of
              None \<Rightarrow> Inl AttributeError
            | Some ps \<Rightarrow>
                if length ps \<noteq> 0
                then (case method_attribs st of
                        None \<Rightarrow> Inl AttributeError
                      | Some ms \<Rightarrow>
                          Inr (None,
                               st\<lparr>ps_fp := ps_fp st @ ''%typemap(cscode) '' @ m_fqn getter
                                      @ '' %{'' @ nl @ join_on (CHR 0x0A) ps @ nl @ ''%}'' @ nl
                                      @ join_on (CHR 0x0A) ms @ nl\<rparr>))
                else Inr (None, st))
      else Inr (None, st))"

definition properties_visit ::
    "(string \<Rightarrow> string) \<Rightarrow> member \<Rightarrow> member list \<Rightarrow> AstAction \<Rightarrow> properties_state
       \<Rightarrow> py_error + bool option \<times> properties_state" where
  "properties_visit re_sub_rules getter children action st =
     (if action \<noteq> ENTER then properties_leave getter st
      else (let st = (if m_kind getter = CLASS_DECL
                      then st\<lparr>properties := Some [], method_attribs := Some []\<rparr> else st)
            in if m_kind getter \<noteq> CXX_METHOD then Inr (Some True, st)
               else if m_access getter \<noteq> PUBLIC then Inr (Some True, st)
               else if m_is_static getter then Inr (Some True, st)
               else if \<not> startswith (m_spelling getter) ''Get''
                       \<and> \<not> startswith (m_spelling getter) ''Is''
               then Inr (Some True, st)
               else (let attribute_name =
                           (if startswith (m_spelling getter) ''Get''
                            then drop 3 (m_spelling getter) else m_spelling getter)
                     in if m_is_virtual getter
                        then Inr (Some False,
                                  st\<lparr>stdout := stdout st @ [''Ignore '' @ m_fqn getter @ '': virtual'']\<rparr>)
                        else if length (m_arguments getter) \<noteq> 0
                        then Inr (Some True,
                                  st\<lparr>stdout := stdout st @ [''Ignore '' @ m_fqn getter @ '': parameters'']\<rparr>)
                        else (case m_result_type getter of
                                None \<Rightarrow>
                                  Inr (Some True,
                                       st\<lparr>stdout := stdout st
                                            @ [''Ignore '' @ m_fqn getter @ '': return type'']\<rparr>)
                              | Some result_type \<Rightarrow>
                                  if td_spelling result_type = ''void''
                                  then Inr (Some True,
                                            st\<lparr>stdout := stdout st
                                                 @ [''Ignore '' @ m_fqn getter @ '': return type'']\<rparr>)
                                  else (case name_taken attribute_name children of
                                          Inl e \<Rightarrow> Inl e
                                        | Inr True \<Rightarrow>
                                            Inr (Some False,
                                                 st\<lparr>stdout := stdout st @ [''Ignore '' @ m_fqn getter
                                                        @ '': attr name taken'']\<rparr>)
                                        | Inr False \<Rightarrow>
                                            if length (filter (\<lambda>c. m_spelling c = m_spelling getter)
                                                         children) > 1
                                            then Inr (Some False,
                                                      st\<lparr>stdout := stdout st @ [''Ignore ''
                                                             @ m_fqn getter @ '': overloads'']\<rparr>)
                                            else emit_property re_sub_rules getter attribute_name
                                                   result_type
                                                   (paired_setter attribute_name result_type children)
                                                   st)))))"

text \<open>
  The files of the output directory: a map from the name of a file to its content.
  \<^verbatim>\<open>on_file_end\<close> (lines 316 to 320) closes the file of the pass and removes it when its
  size is zero; \<^verbatim>\<open>os.stat\<close> raises for a file that is not there.
\<close>

type_synonym files = "string \<rightharpoonup> string"

definition properties_on_file_end :: "string \<Rightarrow> files \<Rightarrow> py_error + files" where
  "properties_on_file_end file_name fs =
     (case fs file_name of
        None \<Rightarrow> Inl FileNotFoundError
      | Some content \<Rightarrow> if length content = 0 then Inr (fs(file_name := None)) else Inr fs)"

text \<open>
  The members \<^verbatim>\<open>int GetHealth()\<close>, \<^verbatim>\<open>virtual int GetHealth()\<close> and
  \<^verbatim>\<open>void SetHealth(int)\<close> of a class \<^verbatim>\<open>Actor\<close>, all public.
\<close>

definition int_type :: type_desc where
  "int_type = \<lparr>td_spelling = ''int'', td_canonical = ''int''\<rparr>"

definition GetHealth :: member where
  "GetHealth =
     \<lparr>m_kind = CXX_METHOD, m_access = PUBLIC, m_is_static = False, m_is_virtual = False,
      m_spelling = ''GetHealth'', m_fqn = ''Actor::GetHealth'', m_arguments = [],
      m_result_type = Some int_type\<rparr>"

definition virtual_GetHealth :: member where
  "virtual_GetHealth = GetHealth\<lparr>m_is_virtual := True\<rparr>"

definition SetHealth :: member where
  "SetHealth =
     \<lparr>m_kind = CXX_METHOD, m_access = PUBLIC, m_is_static = False, m_is_virtual = False,
      m_spelling = ''SetHealth'', m_fqn = ''Actor::SetHealth'', m_arguments = [int_type],
      m_result_type = Some \<lparr>td_spelling = ''void'', td_canonical = ''void''\<rparr>\<rparr>"


section \<open>Event metadata pass\<close>

text \<open>
  What \<^verbatim>\<open>DefineEventsPass\<close> reads of a node: its kind, its spelling, the spelling of its
  type and, for the namespace of the parameters, the raw source text of each child, which
  is what \<^verbatim>\<open>read_raw_code\<close> returns for it.
\<close>

record event_node =
  ev_kind :: CursorKind
  ev_spelling :: string
  ev_type_spelling :: string
  ev_children_code :: "string list"

text \<open>\<^verbatim>\<open>xs.index(x)\<close>: the first position of an element equal to \<^verbatim>\<open>x\<close>.\<close>

fun index_of :: "'a \<Rightarrow> 'a list \<Rightarrow> nat option" where
  "index_of x [] = None"
| "index_of x (y # ys) = (if y = x then Some 0 else map_option Suc (index_of x ys))"

text \<open>The next sibling of a node: the element after its first occurrence, if any.\<close>

definition next_sibling :: "'a \<Rightarrow> 'a list \<Rightarrow> 'a option" where
  "next_sibling x xs =
     (case index_of x xs of
        None \<Rightarrow> None
      | Some i \<Rightarrow> if i + 1 < length xs then Some (xs ! (i + 1)) else None)"

text \<open>The text written for a recognized event (lines 649 to 664).\<close>

definition event_header :: "string \<Rightarrow> string" where
  "event_header ns =
     ''    public class '' @ ns @ ''Event {'' @ nl
     @ ''        private StringHash _event = new StringHash('' @ [dquote] @ ns @ [dquote]
     @ '');'' @ nl @ nl"

definition event_param_line :: "string \<Rightarrow> string \<Rightarrow> string" where
  "event_param_line var_name param_name =
     ''        public StringHash '' @ var_name @ '' = new StringHash('' @ [dquote]
     @ param_name @ [dquote] @ '');'' @ nl"

definition event_footer :: "string \<Rightarrow> string" where
  "event_footer ns =
     ''        public '' @ ns @ ''Event() { }'' @ nl
     @ ''        public static implicit operator StringHash('' @ ns
     @ ''Event e) { return e._event; }'' @ nl
     @ ''    }'' @ nl
     @ ''    public static '' @ ns @ ''Event '' @ ns @ '' = new '' @ ns @ ''Event();'' @ nl @ nl"

text \<open>
  The loop over the children of the namespace (lines 653 to 657). The regular expression
  \<^verbatim>\<open>re_param_name\<close> is a parameter: it gives the second group of a match at the start of
  the raw text, and \<open>None\<close> when there is no match, where \<^verbatim>\<open>.group(2)\<close> raises. The
  result is the exception that ended the loop, if any, and the text of the file.
\<close>

fun event_params ::
    "(string \<Rightarrow> string option) \<Rightarrow> string list \<Rightarrow> string \<Rightarrow> py_error option \<times> string" where
  "event_params re_param_name [] out = (None, out)"
| "event_params re_param_name (code # rest) out =
     (case re_param_name code of
        None \<Rightarrow> (Some AttributeError, out)
      | Some param_name \<Rightarrow>
          (case camel_case (Str param_name) of
             Inl e \<Rightarrow> (Some e, out)
           | Inr (Seq _) \<Rightarrow> (Some ValueError, out)
           | Inr (Str var_name) \<Rightarrow>
               event_params re_param_name rest (out @ event_param_line var_name param_name)))"

text \<open>
  \<^verbatim>\<open>DefineEventsPass.visit\<close> (lines 639 to 665), for a node and the children of its
  parent: the value returned or the exception raised, and the text of \<^verbatim>\<open>_events.i\<close>
  after the call. \<^verbatim>\<open>siblings.index(node)\<close> raises \<^verbatim>\<open>ValueError\<close>, which is not
  caught, when the node is not among the siblings.
\<close>

definition events_visit ::
    "(string \<Rightarrow> string option) \<Rightarrow> event_node \<Rightarrow> event_node list \<Rightarrow> string
       \<Rightarrow> (py_error + bool) \<times> string" where
  "events_visit re_param_name node siblings out =
     (if ev_kind node = VAR_DECL \<and> ev_type_spelling node = ''const Urho3D::StringHash''
         \<and> startswith (ev_spelling node) ''E_''
      then (case index_of node siblings of
              None \<Rightarrow> (Inl ValueError, out)
            | Some i \<Rightarrow>
                if \<not> i + 1 < length siblings then (Inr False, out)
                else (let next_node = siblings ! (i + 1)
                      in if ev_kind next_node = NAMESPACE
                            \<and> lower (ev_spelling next_node)
                                = lower (filter (\<lambda>c. c \<noteq> CHR ''_'') (drop 2 (ev_spelling node)))
                         then (case event_params re_param_name (ev_children_code next_node)
                                      (out @ event_header (ev_spelling next_node)) of
                                 (Some e, out') \<Rightarrow> (Inl e, out')
                               | (None, out') \<Rightarrow>
                                   (Inr True, out' @ event_footer (ev_spelling next_node)))
                         else (Inr True, out)))
      else (Inr True, out))"

text \<open>
  \<^verbatim>\<open>on_begin\<close> (lines 626 to 633) opens \<^verbatim>\<open>_events.i\<close> with mode \<^verbatim>\<open>w+\<close> and writes
  the opening lines; \<^verbatim>\<open>on_end\<close> (lines 635 to 637) writes the closing lines.
\<close>

definition events_on_begin :: string where
  "events_on_begin =
     ''%pragma(csharp) moduleimports=%{'' @ nl @ ''public static class E'' @ nl @ ''{'' @ nl"

definition events_on_end :: "string \<Rightarrow> string" where
  "events_on_end out = out @ ''}'' @ nl @ ''%}'' @ nl"

text \<open>
  The constant \<^verbatim>\<open>E_KEYDOWN\<close> of type \<^verbatim>\<open>const Urho3D::StringHash\<close>, and a namespace
  of the given name with no parameter.
\<close>

definition E_KEYDOWN :: event_node where
  "E_KEYDOWN =
     \<lparr>ev_kind = VAR_DECL, ev_spelling = ''E_KEYDOWN'',
      ev_type_spelling = ''const Urho3D::StringHash'', ev_children_code = []\<rparr>"

definition event_namespace :: "string \<Rightarrow> event_node" where
  "event_namespace name =
     \<lparr>ev_kind = NAMESPACE, ev_spelling = name, ev_type_spelling = [], ev_children_code = []\<rparr>"

section \<open>Flag enumerations and enumeration values\<close>

text \<open>
  What \<^verbatim>\<open>FindFlagEnums\<close> and \<^verbatim>\<open>CleanEnumValues\<close> read of a node and of its children.
  \<open>ec_enum_value\<close> is the decimal text of \<^verbatim>\<open>child.enum_value\<close>, as the formatted
  string of line 608 prints it, and \<open>en_canonical_spelling\<close> is
  \<^verbatim>\<open>node.type.get_canonical().spelling\<close>.
\<close>

record enum_child =
  ec_spelling :: string
  ec_type_spelling :: string
  ec_code :: string
  ec_enum_value :: string

record enum_node =
  en_kind :: CursorKind
  en_spelling :: string
  en_type_spelling :: string
  en_canonical_spelling :: string
  en_children :: "enum_child list"

text \<open>\<^verbatim>\<open>sub in s\<close> for strings.\<close>

fun contains :: "string \<Rightarrow> string \<Rightarrow> bool" where
  "contains sub [] = (sub = [])"
| "contains sub (c # cs) = (startswith (c # cs) sub \<or> contains sub cs)"

text \<open>
  \<^verbatim>\<open>FindFlagEnums.visit\<close> (lines 578 to 584): the new value of the class attribute
  \<^verbatim>\<open>flag_enums\<close>. \<^verbatim>\<open>node.children[0]\<close> raises when there is no child. The visit
  returns \<^verbatim>\<open>True\<close> in every case.
\<close>

definition flag_enums_visit :: "enum_node \<Rightarrow> string list \<Rightarrow> py_error + string list" where
  "flag_enums_visit node flag_enums =
     (if en_kind node = STRUCT_DECL \<and> en_spelling node = ''IsFlagSet''
      then (case en_children node of
              [] \<Rightarrow> Inl IndexError
            | child # _ \<Rightarrow> Inr (flag_enums @ [ec_type_spelling child]))
      else Inr flag_enums)"

text \<open>
  \<^verbatim>\<open>CleanEnumValues.visit\<close> (lines 597 to 619), without the decorator: the text of
  \<^verbatim>\<open>_enums.i\<close> after the call. The visit returns \<^verbatim>\<open>True\<close> in every case.
\<close>

definition sdl_value_line :: "enum_child \<Rightarrow> string \<Rightarrow> string" where
  "sdl_value_line child out =
     (if contains '' = SDL'' (ec_code child)
      then out @ ''%csconstvalue('' @ [dquote] @ ec_enum_value child @ [dquote] @ '') ''
           @ ec_spelling child @ '';'' @ nl
      else out)"

definition clean_enum_visit :: "enum_node \<Rightarrow> string list \<Rightarrow> string \<Rightarrow> py_error + string" where
  "clean_enum_visit node flag_enums out =
     (if en_kind node = ENUM_DECL
      then (let out1 = (if en_type_spelling node \<in> set flag_enums
                        then out @ ''%typemap(csattributes) '' @ en_type_spelling node @ '' ''
                             @ [dquote] @ ''[global::System.Flags]'' @ [dquote] @ '';'' @ nl
                        else out)
            in if startswith (en_type_spelling node) ''Urho3D::''
               then Inr (fold sdl_value_line (en_children node) out1)
               else Inr out1)
      else if en_kind node = TYPE_ALIAS_DECL
      then (if startswith (en_canonical_spelling node) ''Urho3D::FlagSet<''
            then (if 1 < length (en_children node)
                  then (let enum_name = ec_type_spelling (en_children node ! 1);
                            target_name = strip {CHR 0x27} (en_spelling node)
                        in Inr (out @ ''using '' @ target_name @ '' = '' @ enum_name @ '';'' @ nl
                                @ ''%typemap(ctype) '' @ target_name @ '' '' @ [dquote]
                                @ ''size_t'' @ [dquote] @ '';'' @ nl
                                @ ''%typemap(out) '' @ target_name @ '' '' @ [dquote]
                                @ ''$result = (size_t)$1.AsInteger();'' @ [dquote] @ nl))
                  else Inl IndexError)
            else Inr out)
      else Inr out)"

section \<open>Output files\<close>

text \<open>
  \<^verbatim>\<open>os.path.join(a, b)\<close> on POSIX paths, and the two ways the passes open a file:
  mode \<^verbatim>\<open>w+\<close> creates the file or empties it, mode \<^verbatim>\<open>a+\<close> creates it when it is not
  there and keeps what it holds. A write appends to what the file holds.
\<close>

definition path_join :: "string \<Rightarrow> string \<Rightarrow> string" where
  "path_join a b =
     (if startswith b ''/'' then b
      else if a = [] \<or> last a = CHR ''/'' then a @ b
      else a @ ''/'' @ b)"

definition open_truncate :: "string \<Rightarrow> files \<Rightarrow> files" where
  "open_truncate name fs = fs(name \<mapsto> [])"

definition open_append :: "string \<Rightarrow> files \<Rightarrow> files" where
  "open_append name fs = (case fs name of None \<Rightarrow> fs(name \<mapsto> []) | Some _ \<Rightarrow> fs)"

definition file_write :: "string \<Rightarrow> string \<Rightarrow> files \<Rightarrow> files" where
  "file_write name text fs = (case fs name of None \<Rightarrow> fs | Some content \<Rightarrow> fs(name \<mapsto> content @ text))"

text \<open>
  \<^verbatim>\<open>DefinePropertiesPass.on_file_begin\<close> (lines 305 to 314), for the absolute path of the
  source file: the name of the file it opens and the files after it, or \<open>None\<close> when it
  returns \<^verbatim>\<open>False\<close>. \<^verbatim>\<open>split\<close> returns at least one part, so the handler of line 309
  is never entered.
\<close>

definition properties_on_file_begin ::
    "string \<Rightarrow> string \<Rightarrow> string \<Rightarrow> files \<Rightarrow> (string \<times> files) option" where
  "properties_on_file_begin input output abs_path fs =
     (if startswith abs_path input
      then (let dir_name = lower (hd (split_on CHR ''/''
                                     (strip {CHR ''/''} (drop (length input) abs_path))));
                file_name = path_join output (''_properties_'' @ dir_name @ ''.i'')
            in Some (file_name, open_append file_name fs))
      else None)"

text \<open>
  \<^verbatim>\<open>CleanEnumValues.on_begin\<close> (lines 590 to 592) opens \<^verbatim>\<open>_enums.i\<close> with mode
  \<^verbatim>\<open>w+\<close> and returns \<^verbatim>\<open>True\<close>; \<^verbatim>\<open>on_end\<close> (lines 594 and 595) closes the file and
  does nothing else, so the files are after it what they were before it.
\<close>

definition enums_on_begin :: "string \<Rightarrow> files \<Rightarrow> files" where
  "enums_on_begin output fs = open_truncate (path_join output ''_enums.i'') fs"

definition enums_on_end :: "files \<Rightarrow> files" where
  "enums_on_end fs = fs"

fun clean_enum_visits :: "enum_node list \<Rightarrow> string list \<Rightarrow> string \<Rightarrow> py_error + string" where
  "clean_enum_visits [] flag_enums out = Inr out"
| "clean_enum_visits (node # nodes) flag_enums out =
     (case clean_enum_visit node flag_enums out of
        Inl e \<Rightarrow> Inl e
      | Inr out' \<Rightarrow> clean_enum_visits nodes flag_enums out')"

text \<open>
  Modelled from the spec: the coordinator that calls the hooks of a pass is not part of
  the source file. The specification has it call \<^verbatim>\<open>on_begin\<close> before any node is visited,
  \<^verbatim>\<open>visit\<close> for the nodes of the traversal, and \<^verbatim>\<open>on_end\<close> after the last of them. A run
  of \<^verbatim>\<open>CleanEnumValues\<close> over the nodes it is given, with the registry of flag
  enumerations it reads, is those three steps; an exception of a visit ends the run.
\<close>

definition clean_enum_run ::
    "string \<Rightarrow> enum_node list \<Rightarrow> string list \<Rightarrow> files \<Rightarrow> py_error + files" where
  "clean_enum_run output nodes flag_enums fs =
     (let fs1 = enums_on_begin output fs
      in case clean_enum_visits nodes flag_enums [] of
           Inl e \<Rightarrow> Inl e
         | Inr text \<Rightarrow> Inr (enums_on_end (file_write (path_join output ''_enums.i'') text fs1)))"

text \<open>The enumeration \<^verbatim>\<open>enum Color { Red };\<close> outside the namespace \<^verbatim>\<open>Urho3D\<close>.\<close>

definition Color_enum :: enum_node where
  "Color_enum =
     \<lparr>en_kind = ENUM_DECL, en_spelling = ''Color'', en_type_spelling = ''Color'',
      en_canonical_spelling = ''Color'',
      en_children = [\<lparr>ec_spelling = ''Red'', ec_type_spelling = ''Color'', ec_code = ''Red'',
                      ec_enum_value = ''0''\<rparr>]\<rparr>"

section \<open>The pipeline\<close>

text \<open>
  The passes \<^verbatim>\<open>register_passes\<close> (line 710) registers, in its order:
  \<^verbatim>\<open>DefineConstantsPass\<close>, \<^verbatim>\<open>DefineRefCountedPass\<close>, \<^verbatim>\<open>FindFlagEnums\<close>,
  \<^verbatim>\<open>CleanEnumValues\<close> and \<^verbatim>\<open>DefineEventsPass\<close>. The state of a run is the three
  accumulators that are attributes of the classes (\<^verbatim>\<open>cs_code\<close> of line 124,
  \<^verbatim>\<open>parent_classes\<close> of line 216, \<^verbatim>\<open>flag_enums\<close> of line 576) and the text written
  to each file that \<^verbatim>\<open>on_begin\<close> opens.
\<close>

record pipeline_state =
  pl_constants :: constants_state
  pl_parent_classes :: hierarchy
  pl_flag_enums :: "string list"
  pl_enums_fp :: string
  pl_events_fp :: string

text \<open>
  The state of an interpreter that has just loaded the module: the class definitions have
  set the three accumulators to empty, and no file is open.
\<close>

definition fresh_interpreter :: pipeline_state where
  "fresh_interpreter =
     \<lparr>pl_constants = \<lparr>fp = [], cs_code = []\<rparr>, pl_parent_classes = [], pl_flag_enums = [],
      pl_enums_fp = [], pl_events_fp = []\<rparr>"

text \<open>
  The \<^verbatim>\<open>on_begin\<close> of the passes, in the order of registration: three of them open
  their file with mode \<^verbatim>\<open>w+\<close>. None assigns an accumulator.
\<close>

definition pipeline_on_begin :: "pipeline_state \<Rightarrow> pipeline_state" where
  "pipeline_on_begin st =
     st\<lparr>pl_constants := constants_on_begin (pl_constants st),
        pl_enums_fp := [],
        pl_events_fp := events_on_begin\<rparr>"

text \<open>
  One call of \<^verbatim>\<open>visit\<close>: the pass that is called and the node as that pass reads it
  (for \<^verbatim>\<open>DefineEventsPass\<close> with the children of the parent of the node).
\<close>

datatype pass_call =
    ConstantsVisit var_node
  | RefCountedVisit class_node
  | FindFlagEnumsVisit enum_node
  | CleanEnumValuesVisit enum_node
  | EventsVisit event_node "event_node list"

fun pipeline_visit ::
    "(string \<Rightarrow> string \<Rightarrow> string) \<Rightarrow> (string \<Rightarrow> string option) \<Rightarrow> pass_call
       \<Rightarrow> pipeline_state \<Rightarrow> py_error + pipeline_state" where
  "pipeline_visit re_sub_assign re_param_name (ConstantsVisit node) st =
     (case constants_visit re_sub_assign node (pl_constants st) of
        Inl e \<Rightarrow> Inl e
      | Inr (descend, c) \<Rightarrow> Inr (st\<lparr>pl_constants := c\<rparr>))"
| "pipeline_visit re_sub_assign re_param_name (RefCountedVisit node) st =
     Inr (st\<lparr>pl_parent_classes := refcounted_visit node (pl_parent_classes st)\<rparr>)"
| "pipeline_visit re_sub_assign re_param_name (FindFlagEnumsVisit node) st =
     (case flag_enums_visit node (pl_flag_enums st) of
        Inl e \<Rightarrow> Inl e
      | Inr flag_enums \<Rightarrow> Inr (st\<lparr>pl_flag_enums := flag_enums\<rparr>))"
| "pipeline_visit re_sub_assign re_param_name (CleanEnumValuesVisit node) st =
     (case clean_enum_visit node (pl_flag_enums st) (pl_enums_fp st) of
        Inl e \<Rightarrow> Inl e
      | Inr out \<Rightarrow> Inr (st\<lparr>pl_enums_fp := out\<rparr>))"
| "pipeline_visit re_sub_assign re_param_name (EventsVisit node siblings) st =
     (case events_visit re_param_name node siblings (pl_events_fp st) of
        (Inl e, out) \<Rightarrow> Inl e
      | (Inr descend, out) \<Rightarrow> Inr (st\<lparr>pl_events_fp := out\<rparr>))"

fun pipeline_visits ::
    "(string \<Rightarrow> string \<Rightarrow> string) \<Rightarrow> (string \<Rightarrow> string option) \<Rightarrow> pass_call list
       \<Rightarrow> pipeline_state \<Rightarrow> py_error + pipeline_state" where
  "pipeline_visits re_sub_assign re_param_name [] st = Inr st"
| "pipeline_visits re_sub_assign re_param_name (call # calls) st =
     (case pipeline_visit re_sub_assign re_param_name call st of
        Inl e \<Rightarrow> Inl e
      | Inr st' \<Rightarrow> pipeline_visits re_sub_assign re_param_name calls st')"

text \<open>
  \<^verbatim>\<open>parent_classes\<close> maps a class to a Python set of names. A set of strings iterates
  in an order that depends on the hashes of its members, which change from one interpreter
  to the next; \<open>set_order\<close> is the order in which the interpreter of the run iterates over
  a set, given its members in the order of insertion.
\<close>

definition in_iteration_order :: "(string list \<Rightarrow> string list) \<Rightarrow> hierarchy \<Rightarrow> hierarchy" where
  "in_iteration_order set_order parent_classes =
     map (\<lambda>(cls_name, bases). (cls_name, set_order bases)) parent_classes"

text \<open>
  The \<^verbatim>\<open>on_end\<close> of the passes, in the order of registration, and the files after them:
  \<^verbatim>\<open>DefineConstantsPass\<close> writes the pragma and closes, \<^verbatim>\<open>DefineRefCountedPass\<close> opens
  \<^verbatim>\<open>_refcounted.i\<close> with mode \<^verbatim>\<open>w+\<close> and writes a line for each key that reaches
  \<^verbatim>\<open>Urho3D::RefCounted\<close>, \<^verbatim>\<open>CleanEnumValues\<close> closes, \<^verbatim>\<open>DefineEventsPass\<close> writes
  the closing lines and closes. \<open>limit\<close> is the recursion limit of the interpreter;
  \<open>None\<close> is the run in which \<^verbatim>\<open>is_subclass_of\<close> does not return within it.
\<close>

definition pipeline_on_end ::
    "nat \<Rightarrow> (string list \<Rightarrow> string list) \<Rightarrow> string \<Rightarrow> pipeline_state \<Rightarrow> files
       \<Rightarrow> (py_error + pipeline_state \<times> files) option" where
  "pipeline_on_end limit set_order output st fs =
     (let c = constants_on_end (pl_constants st);
          events = events_on_end (pl_events_fp st)
      in case refcounted_lines limit (in_iteration_order set_order (pl_parent_classes st))
                (map fst (pl_parent_classes st)) of
           None \<Rightarrow> None
         | Some (Inl e) \<Rightarrow> Some (Inl e)
         | Some (Inr ls) \<Rightarrow>
             Some (Inr (st\<lparr>pl_constants := c, pl_events_fp := events\<rparr>,
                        fs(path_join output ''_constants.i'' \<mapsto> fp c,
                           path_join output ''_refcounted.i'' \<mapsto> concat ls,
                           path_join output ''_enums.i'' \<mapsto> pl_enums_fp st,
                           path_join output ''_events.i'' \<mapsto> events))))"

text \<open>
  Modelled from the spec: the coordinator that drives the passes (the package
  \<^verbatim>\<open>walkcpp\<close>) is not part of the source file. The specification has it call the
  \<^verbatim>\<open>on_begin\<close> of every pass before any node is visited, then \<^verbatim>\<open>visit\<close> of every pass
  for the nodes of one traversal, in the order of registration, then the \<^verbatim>\<open>on_end\<close> of
  every pass. The calls of \<^verbatim>\<open>visit\<close> it makes for a tree are the input \<open>calls\<close>. A run
  is given the state of the interpreter and the files of the output directory, and returns
  the state and the files after it; an exception ends the run.
\<close>

definition pipeline_run ::
    "nat \<Rightarrow> (string list \<Rightarrow> string list) \<Rightarrow> (string \<Rightarrow> string \<Rightarrow> string)
       \<Rightarrow> (string \<Rightarrow> string option) \<Rightarrow> string \<Rightarrow> pass_call list \<Rightarrow> pipeline_state \<Rightarrow> files
       \<Rightarrow> (py_error + pipeline_state \<times> files) option" where
  "pipeline_run limit set_order re_sub_assign re_param_name output calls st fs =
     (case pipeline_visits re_sub_assign re_param_name calls (pipeline_on_begin st) of
        Inl e \<Rightarrow> Some (Inl e)
      | Inr st' \<Rightarrow> pipeline_on_end limit set_order output st' fs)"

text \<open>
  The calls for \<^verbatim>\<open>class Object : public RefCounted\<close> in the namespace \<^verbatim>\<open>Urho3D\<close> and
  for the enumeration \<^verbatim>\<open>Color\<close>.
\<close>

definition Object_class :: class_node where
  "Object_class =
     \<lparr>cn_kind = CLASS_DECL, cn_fqn = ''Urho3D::Object'', cn_bases = [''Urho3D::RefCounted'']\<rparr>"

definition Object_Color_calls :: "pass_call list" where
  "Object_Color_calls =
     [RefCountedVisit Object_class, FindFlagEnumsVisit Color_enum, CleanEnumValuesVisit Color_enum]"

section \<open>Properties of the identifier normalizer\<close>

lemma upper_char_not_lower: "\<not> is_lower_char (upper_char c)"
  by (auto simp: upper_char_def is_lower_char_def Let_def)

lemma upper_char_idem: "upper_char (upper_char c) = upper_char c"
  using upper_char_not_lower[of c] by (simp add: upper_char_def)

lemma lower_char_id: "\<not> is_upper_char c \<Longrightarrow> lower_char c = c"
  by (simp add: lower_char_def)

lemma lower_id: "\<forall>c \<in> set s. \<not> is_upper_char c \<Longrightarrow> lower s = s"
  by (simp add: lower_def lower_char_id map_idI)

lemma capitalize_nonempty: "s \<noteq> [] \<Longrightarrow> capitalize s \<noteq> []"
  by (cases s) (simp_all add: capitalize_def)

lemma camel_case_parts_capitalize:
  "\<forall>s \<in> set segs. s \<noteq> [] \<Longrightarrow> camel_case_parts segs = Inr (map capitalize segs)"
proof (induction segs)
  case Nil
  then show ?case by simp
next
  case (Cons p ps)
  then show ?case by (cases p) (simp_all add: capitalize_def)
qed

lemma rstrip_id: "s \<noteq> [] \<Longrightarrow> last s \<notin> cs \<Longrightarrow> rstrip cs s = s"
  by (cases s rule: rev_cases) (simp_all add: rstrip_def)

lemma strip_id: "s \<noteq> [] \<Longrightarrow> hd s \<notin> cs \<Longrightarrow> last s \<notin> cs \<Longrightarrow> strip cs s = s"
  by (cases s) (simp_all add: strip_def rstrip_id)

lemma segments_at_upper_single:
  "s \<noteq> [] \<Longrightarrow> \<forall>c \<in> set (tl s). \<not> is_upper_char c \<Longrightarrow> segments_at_upper s = [s]"
  by (induction s rule: segments_at_upper.induct) (auto simp: Let_def)

lemma segments_at_upper_nonempty: "s \<noteq> [] \<Longrightarrow> segments_at_upper s \<noteq> []"
  by (induction s rule: segments_at_upper.induct) (auto simp: Let_def)

lemma segments_at_upper_snoc:
  "s \<noteq> [] \<Longrightarrow> segments_at_upper (s @ [c]) =
     (if is_upper_char c then segments_at_upper s @ [[c]]
      else butlast (segments_at_upper s) @ [last (segments_at_upper s) @ [c]])"
proof (induction s rule: segments_at_upper.induct)
  case 1
  then show ?case by simp
next
  case (2 a)
  then show ?case by simp
next
  case (3 a d cs)
  have ne: "segments_at_upper (d # cs) \<noteq> []"
    by (rule segments_at_upper_nonempty) simp
  have ne': "segments_at_upper (d # cs @ [c]) \<noteq> []"
    by (rule segments_at_upper_nonempty) simp
  obtain x rs where r: "segments_at_upper (d # cs) = x # rs"
    using ne by (cases "segments_at_upper (d # cs)") auto
  from 3 have IH: "segments_at_upper (d # cs @ [c]) =
     (if is_upper_char c then (x # rs) @ [[c]]
      else butlast (x # rs) @ [last (x # rs) @ [c]])"
    by (cases "is_upper_char d") (simp_all add: r)
  show ?case
    by (cases "rs = []") (simp_all add: IH r Let_def)
qed

lemma lower_append: "lower (a @ b) = lower a @ lower b"
  by (simp add: lower_def)

lemma split_loop_invariant:
  "k < length s \<Longrightarrow>
   fold (split_step s) [0 ..< k] (0, []) = (prev, parts) \<Longrightarrow>
   prev \<le> k \<and> map lower (segments_at_upper (take (Suc k) s)) = parts @ [lower (py_slice s prev (Suc k))]"
proof (induction k arbitrary: prev parts)
  case 0
  then show ?case
    by (cases s) (auto simp: py_slice_def)
next
  case (Suc k)
  obtain prev0 parts0 where f: "fold (split_step s) [0 ..< k] (0, []) = (prev0, parts0)"
    by (cases "fold (split_step s) [0 ..< k] (0, [])") auto
  from Suc.prems have k: "k < length s" by simp
  from Suc.IH[OF k f] have le: "prev0 \<le> k"
    and inv: "map lower (segments_at_upper (take (Suc k) s)) = parts0 @ [lower (py_slice s prev0 (Suc k))]"
    by auto
  have tk: "take (Suc (Suc k)) s = take (Suc k) s @ [s ! Suc k]"
    using Suc.prems(1) by (simp add: take_Suc_conv_app_nth)
  have ne: "take (Suc k) s \<noteq> []" using k by (cases s) auto
  have step: "(prev, parts) = split_step s k (prev0, parts0)"
    using Suc.prems(2) f by simp
  have sne: "segments_at_upper (take (Suc k) s) \<noteq> []"
    using ne by (rule segments_at_upper_nonempty)
  show ?case
  proof (cases "is_upper_char (s ! Suc k)")
    case True
    with step have p: "prev = Suc k" "parts = parts0 @ [lower (py_slice s prev0 (Suc k))]"
      by (auto simp: split_step_def)
    have "py_slice s (Suc k) (Suc (Suc k)) = [s ! Suc k]"
      using Suc.prems(1) by (simp add: py_slice_def tk)
    with True inv p show ?thesis
      by (simp add: tk segments_at_upper_snoc[OF ne])
  next
    case False
    with step have p: "prev = prev0" "parts = parts0"
      by (auto simp: split_step_def)
    have sl: "py_slice s prev0 (Suc (Suc k)) = py_slice s prev0 (Suc k) @ [s ! Suc k]"
      using le k by (simp add: py_slice_def tk)
    have bl: "butlast (map lower (segments_at_upper (take (Suc k) s))) = parts0"
      and la: "last (map lower (segments_at_upper (take (Suc k) s))) = lower (py_slice s prev0 (Suc k))"
      using inv by auto
    have "map lower (butlast (segments_at_upper (take (Suc k) s)) @ [last (segments_at_upper (take (Suc k) s)) @ [s ! Suc k]])
        = parts0 @ [lower (py_slice s prev0 (Suc k)) @ lower [s ! Suc k]]"
      using bl la sne by (simp add: map_butlast last_map lower_append)
    with False p le sl show ?thesis
      by (simp add: tk segments_at_upper_snoc[OF ne] lower_append)
  qed
qed

lemma split_identifier_segments:
  assumes "CHR ''_'' \<notin> set s"
  shows "split_identifier s = map lower (segments_at_upper s)"
proof (cases "s = []")
  case True
  then show ?thesis by (simp add: split_identifier_def)
next
  case False
  obtain prev parts where f: "fold (split_step s) [0 ..< length s - 1] (0, []) = (prev, parts)"
    by (cases "fold (split_step s) [0 ..< length s - 1] (0, [])") auto
  from False have k: "length s - 1 < length s" by (cases s) auto
  from split_loop_invariant[OF k f] False
  have le: "prev \<le> length s - 1"
    and inv: "map lower (segments_at_upper s) = parts @ [lower (drop prev s)]"
    by (auto simp: py_slice_def)
  from le k have "drop prev s \<noteq> []" by simp
  with assms f inv show ?thesis
    by (simp add: split_identifier_def)
qed

lemma is_upper_not_lower: "is_upper_char c \<Longrightarrow> \<not> is_lower_char c"
  by (auto simp: is_upper_char_def is_lower_char_def Let_def)

lemma underscore_not_upper: "\<not> is_upper_char CHR ''_''"
  by (simp add: is_upper_char_def)

lemma lower_char_not_upper: "\<not> is_upper_char (lower_char c)"
  by (auto simp: lower_char_def is_upper_char_def Let_def)

lemma lower_char_not_underscore: "c \<noteq> CHR ''_'' \<Longrightarrow> lower_char c \<noteq> CHR ''_''"
proof -
  have u: "of_char CHR ''_'' = (95::nat)" by simp
  assume "c \<noteq> CHR ''_''"
  then show ?thesis
    using u by (auto simp: lower_char_def is_upper_char_def Let_def
        char_of_eq_iff take_bit_eq_mod)
qed

lemma segments_at_upper_all_upper:
  "\<forall>c \<in> set s. is_upper_char c \<Longrightarrow> segments_at_upper s = map (\<lambda>c. [c]) s"
  by (induction s rule: segments_at_upper.induct) auto

lemma notin_map: "(\<And>c. c \<in> set s \<Longrightarrow> f c \<noteq> u) \<Longrightarrow> u \<notin> set (map f s)"
  by auto

lemma notin_neq: "u \<notin> set s \<Longrightarrow> c \<in> set s \<Longrightarrow> c \<noteq> u"
  by auto

lemma underscore_notin_lower:
  assumes "CHR ''_'' \<notin> set s"
  shows "CHR ''_'' \<notin> set (lower s)"
  unfolding lower_def
proof (rule notin_map)
  fix c assume "c \<in> set s"
  with assms have "c \<noteq> CHR ''_''" by (rule notin_neq)
  then show "lower_char c \<noteq> CHR ''_''" by (rule lower_char_not_underscore)
qed

subsection \<open>C1: camel-casing of a pre-split sequence\<close>

text \<open>
  C1, where the code departs from the claim. \<^verbatim>\<open>camel_case\<close> is written to take a raw
  name or a pre-split sequence (the branch of lines 73 and 74, the call of line 98), but
  line 66 calls \<^verbatim>\<open>identifier.strip('_')\<close> before the type of the argument is tested:
  for every list or tuple the call raises \<^verbatim>\<open>AttributeError\<close>, so
  \<^verbatim>\<open>camel_case(["get", "max", "health"])\<close> does not return \<^verbatim>\<open>"GetMaxHealth"\<close>,
  which the raw name \<^verbatim>\<open>"get_max_health"\<close> does give.
\<close>

theorem camel_case_sequence_raises:
  "camel_case (Seq name_parts) = Inl AttributeError
   \<and> camel_case (Seq [''get'', ''max'', ''health'']) \<noteq> Inr (Str ''GetMaxHealth'')
   \<and> camel_case (Str ''get_max_health'') = Inr (Str ''GetMaxHealth'')"
proof -
  have 1: "camel_case (Seq xs) = Inl AttributeError" for xs
    by (simp add: camel_case_def strip_attr_def)
  have 2: "camel_case (Str ''get_max_health'') = Inr (Str ''GetMaxHealth'')"
    by code_simp
  from 1 2 show ?thesis by simp
qed

subsection \<open>C2: splitting an all-uppercase name\<close>

text \<open>
  C2, where the code departs from the claim. For every name of two or more ASCII uppercase
  letters, which has no underscore, \<^verbatim>\<open>split_identifier\<close> starts a segment at every
  letter and returns one lowercased segment per letter, not the single segment made of the
  whole name lowercased, though its documentation splits between a lowercase and an
  uppercase letter only. \<^verbatim>\<open>camel_case\<close>, whose guard of lines 69 and 70 lowercases such
  a name before it is split, does treat it as one segment.
\<close>

theorem split_identifier_all_uppercase:
  assumes up: "\<forall>c \<in> set s. is_upper_char c" and len: "2 \<le> length s"
  shows "CHR ''_'' \<notin> set s
       \<and> split_identifier s = map (\<lambda>c. [lower_char c]) s
       \<and> split_identifier s \<noteq> [lower s]
       \<and> camel_case (Str s) = Inr (Str (capitalize (lower s)))"
proof -
  from len have ne: "s \<noteq> []" by auto
  have us: "CHR ''_'' \<notin> set s"
  proof
    assume "CHR ''_'' \<in> set s"
    with up have "is_upper_char CHR ''_''" by (rule bspec)
    with underscore_not_upper show False by (rule notE)
  qed
  have seg: "split_identifier s = map lower (segments_at_upper s)"
    using us by (rule split_identifier_segments)
  have a: "split_identifier s = map (\<lambda>c. [lower_char c]) s"
    using up by (simp add: seg segments_at_upper_all_upper lower_def comp_def)
  have "length (split_identifier s) = length s" by (simp add: a)
  with len have b: "split_identifier s \<noteq> [lower s]" by auto
  have "hd s \<in> set s" "last s \<in> set s" using ne by auto
  with us have "hd s \<notin> {CHR ''_''}" "last s \<notin> {CHR ''_''}" by auto
  with ne have st: "strip {CHR ''_''} s = s" by (intro strip_id)
  have iu: "isupper s"
    using up \<open>hd s \<in> set s\<close> is_upper_not_lower unfolding isupper_def by blast
  have lne: "lower s \<noteq> []" using ne by (simp add: lower_def)
  have nu: "\<forall>c \<in> set (lower s). \<not> is_upper_char c"
    by (simp add: lower_def lower_char_not_upper)
  have lus: "CHR ''_'' \<notin> set (lower s)"
    using us by (rule underscore_notin_lower)
  have "\<forall>c \<in> set (tl (lower s)). \<not> is_upper_char c"
    using nu lne by (blast dest: list.set_sel(2))
  with lne have "segments_at_upper (lower s) = [lower s]"
    by (rule segments_at_upper_single)
  moreover have "lower (lower s) = lower s"
    using nu by (rule lower_id)
  ultimately have sp: "split_identifier (lower s) = [lower s]"
    using lus by (simp add: split_identifier_segments)
  have cp: "camel_case_parts [lower s] = Inr [capitalize (lower s)]"
    using lne camel_case_parts_capitalize[of "[lower s]"] by simp
  have c: "camel_case (Str s) = Inr (Str (capitalize (lower s)))"
    using us by (simp add: camel_case_def strip_attr_def camel_case_body_def st iu sp cp
        del: camel_case_parts.simps)
  from us a b c show ?thesis by (intro conjI)
qed

lemma lower_char_AB: "map (\<lambda>c. [lower_char c]) ''AB'' = [''a'', ''b'']"
  by code_simp

lemma lower_AB: "lower ''AB'' = ''ab''"
  by code_simp

lemma capitalize_ab: "capitalize ''ab'' = ''Ab''"
  by code_simp

lemma AB_all_upper: "\<forall>c \<in> set ''AB''. is_upper_char c"
  by (simp add: is_upper_char_def)

theorem split_identifier_all_uppercase_witness:
  "split_identifier ''AB'' = [''a'', ''b'']
   \<and> split_identifier ''AB'' \<noteq> [''ab'']
   \<and> camel_case (Str ''AB'') = Inr (Str ''Ab'')"
proof -
  have len: "2 \<le> length ''AB''" by simp
  show ?thesis
    by (rule split_identifier_all_uppercase[OF AB_all_upper len, THEN conjunct2,
          unfolded lower_char_AB lower_AB capitalize_ab])
qed

section \<open>Properties of the class hierarchy pass\<close>

lemma is_subclass_of_Suc:
  "is_subclass_of n pc c b = Some r \<Longrightarrow> is_subclass_of (Suc n) pc c b = Some r"
  "is_subclass_of_loop n pc xs b = Some r \<Longrightarrow> is_subclass_of_loop (Suc n) pc xs b = Some r"
proof (induction n pc c b and n pc xs b arbitrary: r and r
    rule: is_subclass_of_is_subclass_of_loop.induct)
  case (1 pc c b)
  then show ?case by simp
next
  case (2 depth pc c b)
  then show ?case by (auto split: if_splits option.splits)
next
  case (3 depth pc b)
  then show ?case by simp
next
  case (4 depth pc sub rest b)
  show ?case
  proof (cases "map_of pc sub = None")
    case True
    with 4 show ?thesis by simp
  next
    case False
    then obtain v where v: "is_subclass_of depth pc sub b = Some v"
      using "4.prems" by (cases "is_subclass_of depth pc sub b") auto
    with "4.IH"(1)[OF False] have v': "is_subclass_of (Suc depth) pc sub b = Some v" by blast
    show ?thesis
    proof (cases v)
      case (Inl e)
      with "4.prems" False v have "r = Inl e" by simp
      with False v' Inl show ?thesis by (simp del: is_subclass_of.simps)
    next
      case (Inr found)
      show ?thesis
      proof (cases found)
        case True
        with "4.prems" False v Inr have "r = Inr True" by simp
        with False v' Inr True show ?thesis by (simp del: is_subclass_of.simps)
      next
        case f: False
        with "4.prems" False v Inr have "is_subclass_of_loop depth pc rest b = Some r" by simp
        with "4.IH"(2)[OF False v Inr] f have "is_subclass_of_loop (Suc depth) pc rest b = Some r"
          by blast
        with False v' Inr f show ?thesis by (simp del: is_subclass_of.simps)
      qed
    qed
  qed
qed

lemma is_subclass_of_mono:
  "n \<le> m \<Longrightarrow> is_subclass_of n pc c b = Some r \<Longrightarrow> is_subclass_of m pc c b = Some r"
  by (induction m) (auto simp: le_Suc_eq dest: is_subclass_of_Suc(1) simp del: is_subclass_of.simps)

lemma is_subclass_of_loop_mono:
  "n \<le> m \<Longrightarrow> is_subclass_of_loop n pc xs b = Some r \<Longrightarrow> is_subclass_of_loop m pc xs b = Some r"
  by (induction m) (auto simp: le_Suc_eq dest: is_subclass_of_Suc(2) simp del: is_subclass_of_loop.simps)

lemma finite_base_edges: "finite (base_edges pc)"
proof -
  have "base_edges pc \<subseteq> (\<Union>p \<in> set pc. {fst p} \<times> set (snd p))"
    by (auto simp: base_edges_def dest!: map_of_SomeD intro!: bexI)
  moreover have "finite (\<Union>p \<in> set pc. {fst p} \<times> set (snd p))" by simp
  ultimately show ?thesis by (rule finite_subset)
qed

lemma base_edges_recorded: "(c, b) \<in> base_edges pc \<Longrightarrow> recorded pc c"
  by (auto simp: base_edges_def recorded_def)

lemma base_edges_iff:
  "map_of pc c = Some bases \<Longrightarrow> (c, b) \<in> base_edges pc \<longleftrightarrow> b \<in> set bases"
  by (simp add: base_edges_def)

lemma base_edges_trancl_iff:
  assumes m: "map_of pc c = Some bases"
  shows "(c, b) \<in> (base_edges pc)\<^sup>+ \<longleftrightarrow>
         b \<in> set bases \<or> (\<exists>s \<in> set bases. recorded pc s \<and> (s, b) \<in> (base_edges pc)\<^sup>*)"
proof
  assume "(c, b) \<in> (base_edges pc)\<^sup>+"
  then show "b \<in> set bases \<or> (\<exists>s \<in> set bases. recorded pc s \<and> (s, b) \<in> (base_edges pc)\<^sup>*)"
  proof -
    from \<open>(c, b) \<in> (base_edges pc)\<^sup>+\<close> obtain s
      where cs: "(c, s) \<in> base_edges pc" and sb: "(s, b) \<in> (base_edges pc)\<^sup>*"
      by (blast dest: tranclD)
    from cs have sin: "s \<in> set bases" using m by (simp add: base_edges_iff)
    show ?thesis
    proof (cases "s = b")
      case True
      with sin show ?thesis by simp
    next
      case False
      with sb have "(s, b) \<in> (base_edges pc)\<^sup>+" by (auto simp: rtrancl_eq_or_trancl)
      then obtain z where "(s, z) \<in> base_edges pc" by (blast dest: tranclD)
      then have "recorded pc s" by (rule base_edges_recorded)
      with sin sb show ?thesis by blast
    qed
  qed
next
  assume "b \<in> set bases \<or> (\<exists>s \<in> set bases. recorded pc s \<and> (s, b) \<in> (base_edges pc)\<^sup>*)"
  then show "(c, b) \<in> (base_edges pc)\<^sup>+"
  proof
    assume "b \<in> set bases"
    then have "(c, b) \<in> base_edges pc" using m by (simp add: base_edges_iff)
    then show ?thesis by blast
  next
    assume "\<exists>s \<in> set bases. recorded pc s \<and> (s, b) \<in> (base_edges pc)\<^sup>*"
    then obtain s where s: "s \<in> set bases" "(s, b) \<in> (base_edges pc)\<^sup>*" by blast
    from s(1) have "(c, s) \<in> base_edges pc" using m by (simp add: base_edges_iff)
    then show ?thesis using s(2) by (rule rtrancl_into_trancl2)
  qed
qed

lemma is_subclass_of_sound:
  "is_subclass_of n pc c b = Some res \<Longrightarrow> recorded pc c \<or> c = b \<Longrightarrow>
     res = Inr (c = b \<or> (c, b) \<in> (base_edges pc)\<^sup>+)"
  "is_subclass_of_loop n pc xs b = Some res \<Longrightarrow>
     res = Inr (\<exists>s \<in> set xs. recorded pc s \<and> (s, b) \<in> (base_edges pc)\<^sup>*)"
proof (induction n pc c b and n pc xs b arbitrary: res and res
    rule: is_subclass_of_is_subclass_of_loop.induct)
  case (1 pc c b)
  then show ?case by simp
next
  case (2 depth pc c b)
  show ?case
  proof (cases "c = b")
    case True
    with "2.prems" show ?thesis by simp
  next
    case False
    with "2.prems" obtain bases where m: "map_of pc c = Some bases"
      by (auto simp: recorded_def)
    show ?thesis
    proof (cases "b \<in> set bases")
      case True
      with "2.prems" False m show ?thesis by (simp add: base_edges_trancl_iff[OF m])
    next
      case nb: False
      with "2.prems" False m have "is_subclass_of_loop depth pc bases b = Some res" by simp
      with "2.IH"[OF False m nb]
      have "res = Inr (\<exists>s \<in> set bases. recorded pc s \<and> (s, b) \<in> (base_edges pc)\<^sup>*)" by blast
      with False nb show ?thesis by (simp add: base_edges_trancl_iff[OF m])
    qed
  qed
next
  case (3 depth pc b)
  then show ?case by simp
next
  case (4 depth pc sub rest b)
  show ?case
  proof (cases "map_of pc sub = None")
    case True
    with "4.prems" have "is_subclass_of_loop depth pc rest b = Some res" by simp
    with "4.IH"(3)[OF _] True
    have "res = Inr (\<exists>s \<in> set rest. recorded pc s \<and> (s, b) \<in> (base_edges pc)\<^sup>*)" by blast
    with True show ?thesis by (simp add: recorded_def)
  next
    case False
    then have rec: "recorded pc sub" by (simp add: recorded_def)
    from "4.prems" False obtain v where v: "is_subclass_of depth pc sub b = Some v"
      by (cases "is_subclass_of depth pc sub b") auto
    from "4.IH"(1)[OF False v] rec
    have vv: "v = Inr (sub = b \<or> (sub, b) \<in> (base_edges pc)\<^sup>+)" by blast
    have star: "(sub = b \<or> (sub, b) \<in> (base_edges pc)\<^sup>+) \<longleftrightarrow> (sub, b) \<in> (base_edges pc)\<^sup>*"
      by (auto simp: rtrancl_eq_or_trancl)
    show ?thesis
    proof (cases "(sub, b) \<in> (base_edges pc)\<^sup>*")
      case True
      with vv star have "v = Inr True" by simp
      with "4.prems" False v have "res = Inr True" by simp
      with True rec show ?thesis by auto
    next
      case nf: False
      with vv star have vf: "v = Inr False" by simp
      with "4.prems" False v have "is_subclass_of_loop depth pc rest b = Some res" by simp
      with "4.IH"(2)[OF False v vf] 
      have "res = Inr (\<exists>s \<in> set rest. recorded pc s \<and> (s, b) \<in> (base_edges pc)\<^sup>*)" by simp
      with nf show ?thesis by auto
    qed
  qed
qed

lemma is_subclass_of_terminates:
  assumes ac: "acyclic (base_edges pc)"
  shows "recorded pc c \<longrightarrow> (\<exists>n r. is_subclass_of n pc c b = Some (Inr r))"
proof -
  have "wf ((base_edges pc)\<inverse>)"
    using finite_base_edges ac by (rule finite_acyclic_wf_converse)
  then show ?thesis
  proof (induction c rule: wf_induct_rule)
    case (less c)
    show ?case
    proof
      assume "recorded pc c"
      then obtain bases where m: "map_of pc c = Some bases"
        by (auto simp: recorded_def)
      have loop: "\<exists>n r. is_subclass_of_loop n pc xs b = Some (Inr r)"
        if "set xs \<subseteq> set bases" for xs
        using that
      proof (induction xs)
        case Nil
        have "is_subclass_of_loop 0 pc [] b = Some (Inr False)" by simp
        then show ?case by blast
      next
        case (Cons s rest)
        then obtain n1 r1 where n1: "is_subclass_of_loop n1 pc rest b = Some (Inr r1)"
          by auto
        show ?case
        proof (cases "recorded pc s")
          case False
          with n1 have "is_subclass_of_loop n1 pc (s # rest) b = Some (Inr r1)"
            by (simp add: recorded_def)
          then show ?thesis by blast
        next
          case True
          from Cons.prems have "s \<in> set bases" by simp
          then have "(s, c) \<in> (base_edges pc)\<inverse>" using m by (simp add: base_edges_iff)
          with less.IH True obtain n2 r2 where n2: "is_subclass_of n2 pc s b = Some (Inr r2)"
            by blast
          let ?N = "max n1 n2"
          have a: "is_subclass_of_loop ?N pc rest b = Some (Inr r1)"
            using n1 by (rule is_subclass_of_loop_mono[rotated]) simp
          have c: "is_subclass_of ?N pc s b = Some (Inr r2)"
            using n2 by (rule is_subclass_of_mono[rotated]) simp
          from True have k: "map_of pc s \<noteq> None" by (simp add: recorded_def)
          have "is_subclass_of_loop ?N pc (s # rest) b = Some (Inr (if r2 then True else r1))"
            using a c k by simp
          then show ?thesis by blast
        qed
      qed
      then obtain n r where n: "is_subclass_of_loop n pc bases b = Some (Inr r)"
        by blast
      have "\<exists>r'. is_subclass_of (Suc n) pc c b = Some (Inr r')"
        using m n by auto
      then show "\<exists>n r. is_subclass_of n pc c b = Some (Inr r)" by blast
    qed
  qed
qed

lemma is_subclass_of_total:
  assumes ac: "acyclic (base_edges pc)" and key: "map_of pc c = Some bases"
  shows "\<exists>n. \<forall>depth. n \<le> depth \<longrightarrow>
           is_subclass_of depth pc c b =
             Some (Inr (c = b \<or> b \<in> set bases
                        \<or> (\<exists>s \<in> set bases. recorded pc s \<and> (s, b) \<in> (base_edges pc)\<^sup>*)))"
proof -
  from key have rec: "recorded pc c" by (simp add: recorded_def)
  with is_subclass_of_terminates[OF ac, of c b]
  obtain n r where n: "is_subclass_of n pc c b = Some (Inr r)" by blast
  have "is_subclass_of n pc c b = Some (Inr (c = b \<or> (c, b) \<in> (base_edges pc)\<^sup>+))"
    using is_subclass_of_sound(1)[OF n] rec n by simp
  then have "is_subclass_of n pc c b =
      Some (Inr (c = b \<or> b \<in> set bases
                 \<or> (\<exists>s \<in> set bases. recorded pc s \<and> (s, b) \<in> (base_edges pc)\<^sup>*)))"
    by (simp add: base_edges_trancl_iff[OF key])
  then have "\<forall>depth. n \<le> depth \<longrightarrow> is_subclass_of depth pc c b =
      Some (Inr (c = b \<or> b \<in> set bases
                 \<or> (\<exists>s \<in> set bases. recorded pc s \<and> (s, b) \<in> (base_edges pc)\<^sup>*)))"
    by (blast intro: is_subclass_of_mono)
  then show ?thesis by blast
qed

lemma acyclic_by_rank:
  fixes f :: "'a \<Rightarrow> nat"
  assumes "\<And>c b. (c, b) \<in> r \<Longrightarrow> f b < f c"
  shows "acyclic r"
proof -
  have "r\<inverse> \<subseteq> measure f" using assms by auto
  moreover have "acyclic (measure f)" by (rule wf_acyclic) simp
  ultimately have "acyclic (r\<inverse>)" by (rule acyclic_subset[rotated])
  then show ?thesis by simp
qed

lemma cyclic_never_returns:
  "is_subclass_of depth [(''X'', [''X''])] ''X'' ''T'' = None
   \<and> is_subclass_of_loop depth [(''X'', [''X''])] [''X''] ''T'' = None"
  by (induction depth) simp_all

lemma abc_edges_ranked:
  "(c, b) \<in> base_edges [(''B'', [''A'']), (''C'', [''B''])] \<Longrightarrow>
   (if b = ''C'' then 2 else if b = ''B'' then 1 else (0::nat))
     < (if c = ''C'' then 2 else if c = ''B'' then 1 else 0)"
  by (auto simp: base_edges_def split: if_splits)

lemma abc_acyclic: "acyclic (base_edges [(''B'', [''A'']), (''C'', [''B''])])"
  by (rule acyclic_by_rank[where f = "\<lambda>x. if x = ''C'' then 2 else if x = ''B'' then 1 else 0"])
     (rule abc_edges_ranked)

lemma abc_B_reaches_A: "(''B'', ''A'') \<in> (base_edges [(''B'', [''A'']), (''C'', [''B''])])\<^sup>*"
  by (rule r_into_rtrancl) (simp add: base_edges_def)

lemma self_base_cyclic: "\<not> acyclic (base_edges [(''X'', [''X''])])"
proof -
  have "(''X'', ''X'') \<in> base_edges [(''X'', [''X''])]" by (simp add: base_edges_def)
  then have "(''X'', ''X'') \<in> (base_edges [(''X'', [''X''])])\<^sup>+" by (rule r_into_trancl)
  then show ?thesis unfolding acyclic_def by blast
qed

subsection \<open>C3: the subclass query on a recorded hierarchy\<close>

text \<open>
  C3, as the code has it. The pass, visiting the classes \<^verbatim>\<open>A\<close> (no base), \<^verbatim>\<open>B\<close>
  (base \<^verbatim>\<open>A\<close>) and \<^verbatim>\<open>C\<close> (base \<^verbatim>\<open>B\<close>), records \<^verbatim>\<open>B\<close> and \<^verbatim>\<open>C\<close> as keys;
  on that hierarchy \<^verbatim>\<open>is_subclass_of(C, A)\<close> and \<^verbatim>\<open>is_subclass_of(B, A)\<close> return
  true and \<^verbatim>\<open>is_subclass_of(B, C)\<close> returns false. In general, on an acyclic recorded
  hierarchy and for a class recorded as a key, \<^verbatim>\<open>is_subclass_of(class, base)\<close> returns,
  and returns true iff the class equals the base, or the base is a member of the class's
  recorded set, or some member of that set that is itself a key reaches the base.
\<close>

theorem is_subclass_of_recorded_class:
  assumes ac: "acyclic (base_edges parent_classes)"
    and key: "map_of parent_classes class_name = Some bases"
  shows "(\<exists>n. \<forall>depth. n \<le> depth \<longrightarrow>
            is_subclass_of depth parent_classes class_name base_name =
              Some (Inr (class_name = base_name \<or> base_name \<in> set bases
                         \<or> (\<exists>s \<in> set bases. recorded parent_classes s
                               \<and> (s, base_name) \<in> (base_edges parent_classes)\<^sup>*))))
       \<and> fold refcounted_visit
            [\<lparr>cn_kind = CLASS_DECL, cn_fqn = ''A'', cn_bases = []\<rparr>,
             \<lparr>cn_kind = CLASS_DECL, cn_fqn = ''B'', cn_bases = [''A'']\<rparr>,
             \<lparr>cn_kind = CLASS_DECL, cn_fqn = ''C'', cn_bases = [''B'']\<rparr>] []
           = [(''B'', [''A'']), (''C'', [''B''])]
       \<and> is_subclass_of (Suc (Suc depth)) [(''B'', [''A'']), (''C'', [''B''])] ''C'' ''A''
           = Some (Inr True)
       \<and> is_subclass_of (Suc depth) [(''B'', [''A'']), (''C'', [''B''])] ''B'' ''A''
           = Some (Inr True)
       \<and> is_subclass_of (Suc (Suc depth)) [(''B'', [''A'']), (''C'', [''B''])] ''B'' ''C''
           = Some (Inr False)"
proof -
  have 1: "\<exists>n. \<forall>depth. n \<le> depth \<longrightarrow>
            is_subclass_of depth parent_classes class_name base_name =
              Some (Inr (class_name = base_name \<or> base_name \<in> set bases
                         \<or> (\<exists>s \<in> set bases. recorded parent_classes s
                               \<and> (s, base_name) \<in> (base_edges parent_classes)\<^sup>*)))"
    using ac key by (rule is_subclass_of_total)
  have 2: "fold refcounted_visit
            [\<lparr>cn_kind = CLASS_DECL, cn_fqn = ''A'', cn_bases = []\<rparr>,
             \<lparr>cn_kind = CLASS_DECL, cn_fqn = ''B'', cn_bases = [''A'']\<rparr>,
             \<lparr>cn_kind = CLASS_DECL, cn_fqn = ''C'', cn_bases = [''B'']\<rparr>] []
           = [(''B'', [''A'']), (''C'', [''B''])]"
    by (simp add: refcounted_visit_def add_base_def set_add_def)
  have 3: "is_subclass_of (Suc (Suc depth)) [(''B'', [''A'']), (''C'', [''B''])] ''C'' ''A''
           = Some (Inr True)"
    by simp
  have 4: "is_subclass_of (Suc depth) [(''B'', [''A'']), (''C'', [''B''])] ''B'' ''A''
           = Some (Inr True)"
    by simp
  have 5: "is_subclass_of (Suc (Suc depth)) [(''B'', [''A'']), (''C'', [''B''])] ''B'' ''C''
           = Some (Inr False)"
    by simp
  from 1 2 3 4 5 show ?thesis by (intro conjI)
qed

theorem is_subclass_of_recorded_class_witness:
  "\<exists>n. \<forall>depth. n \<le> depth \<longrightarrow>
     is_subclass_of depth [(''B'', [''A'']), (''C'', [''B''])] ''C'' ''A'' = Some (Inr True)"
proof -
  have key: "map_of [(''B'', [''A'']), (''C'', [''B''])] ''C'' = Some [''B'']" by simp
  have rec: "recorded [(''B'', [''A'']), (''C'', [''B''])] ''B''" by (simp add: recorded_def)
  have t: "(''C'' = ''A'' \<or> ''A'' \<in> set [''B'']
            \<or> (\<exists>s \<in> set [''B'']. recorded [(''B'', [''A'']), (''C'', [''B''])] s
                  \<and> (s, ''A'') \<in> (base_edges [(''B'', [''A'']), (''C'', [''B''])])\<^sup>*)) = True"
    using rec abc_B_reaches_A by simp
  from is_subclass_of_recorded_class[OF abc_acyclic key, of "''A''", THEN conjunct1]
  show ?thesis unfolding t .
qed

text \<open>
  The root \<^verbatim>\<open>A\<close> has no recorded set: at any depth, the lookup of line 231 raises, and
  \<^verbatim>\<open>is_subclass_of(A, C)\<close> does not return false.
\<close>

theorem is_subclass_of_root_counterexample:
  "\<forall>depth. is_subclass_of (Suc depth) [(''B'', [''A'']), (''C'', [''B''])] ''A'' ''C''
             = Some (Inl KeyError)
         \<and> is_subclass_of (Suc depth) [(''B'', [''A'']), (''C'', [''B''])] ''A'' ''C''
             \<noteq> Some (Inr False)"
  by simp

subsection \<open>C10: the subclass query returns on an acyclic hierarchy\<close>

text \<open>
  C10. On every acyclic hierarchy (a recorded hierarchy is finite) and for every class
  recorded as a key, \<^verbatim>\<open>is_subclass_of(class, base)\<close> returns a truth value for every base
  name, once the depth allowed to the calls is large enough. The walk has no visited set:
  on the hierarchy in which \<^verbatim>\<open>X\<close> is its own base, which is recorded and not acyclic,
  \<^verbatim>\<open>is_subclass_of(X, T)\<close> returns at no depth.
\<close>

theorem is_subclass_of_returns_if_acyclic:
  assumes ac: "acyclic (base_edges parent_classes)"
    and key: "recorded parent_classes class_name"
  shows "(\<exists>n. \<forall>depth. n \<le> depth \<longrightarrow>
            (\<exists>found. is_subclass_of depth parent_classes class_name base_name
                        = Some (Inr found)))
       \<and> recorded [(''X'', [''X''])] ''X''
       \<and> \<not> acyclic (base_edges [(''X'', [''X''])])
       \<and> (\<forall>depth. is_subclass_of depth [(''X'', [''X''])] ''X'' ''T'' = None)"
proof -
  from key obtain bases where m: "map_of parent_classes class_name = Some bases"
    by (auto simp: recorded_def)
  from is_subclass_of_total[OF ac m, of base_name]
  have 1: "\<exists>n. \<forall>depth. n \<le> depth \<longrightarrow>
            (\<exists>found. is_subclass_of depth parent_classes class_name base_name
                        = Some (Inr found))"
    by blast
  have 2: "recorded [(''X'', [''X''])] ''X''" by (simp add: recorded_def)
  have 3: "\<forall>depth. is_subclass_of depth [(''X'', [''X''])] ''X'' ''T'' = None"
    using cyclic_never_returns by blast
  from 1 2 self_base_cyclic 3 show ?thesis by (intro conjI)
qed

theorem is_subclass_of_returns_if_acyclic_witness:
  "\<exists>n. \<forall>depth. n \<le> depth \<longrightarrow>
     (\<exists>found. is_subclass_of depth [(''B'', [''A'']), (''C'', [''B''])] ''C'' ''A''
                 = Some (Inr found))"
proof -
  have rec: "recorded [(''B'', [''A'']), (''C'', [''B''])] ''C''" by (simp add: recorded_def)
  from is_subclass_of_returns_if_acyclic[OF abc_acyclic rec, of "''A''", THEN conjunct1]
  show ?thesis .
qed

section \<open>Properties of the constant extraction pass\<close>

lemma camel_case_kMax: "camel_case (Str ''kMax'') = Inr (Str ''KMax'')"
  by code_simp

lemma camel_case_kName: "camel_case (Str ''kName'') = Inr (Str ''KName'')"
  by code_simp

lemma get_constant_value_5:
  "get_constant_value r \<lparr>rc_spelling = [], rc_code = ''5''\<rparr> = Some ''5''"
  by (simp add: get_constant_value_def rstrip_def Let_def)

lemma extract_literal_kMax:
  "extract_literal r (kMax_node fqn) t = (''int'', Some ''5'')"
  by (simp add: extract_literal_def kMax_node_def get_constant_value_5 truthy_def)

lemma kMax_guards:
  "\<not> endswith ''kMax'' ''/MathDefs.h''" "\<not> startswith ''kMax'' ''E_''"
  "\<not> startswith ''kMax'' ''P_''"
  "\<not> endswith ''kName'' ''/MathDefs.h''" "\<not> startswith ''kName'' ''E_''"
  "\<not> startswith ''kName'' ''P_''"
  by (simp_all add: endswith_def startswith_def)

lemma fqn_kMax_guards:
  "\<not> startswith ''Urho3D::kMax'' ''Urho3D::IsFlagSet''"
  "\<not> startswith ''Urho3D::kMax'' ''Urho3D::FlagSet''"
  "\<not> startswith ''Urho3D::kName'' ''Urho3D::IsFlagSet''"
  "\<not> startswith ''Urho3D::kName'' ''Urho3D::FlagSet''"
  by (simp_all add: startswith_def)

subsection \<open>C4: literal constants\<close>

text \<open>
  C4, as the code has it. For the namespace-scope declaration
  \<^verbatim>\<open>static const int kMax = 5;\<close>, whatever its fully qualified name outside the flag-set
  helpers, the pass appends to \<^verbatim>\<open>cs_code\<close> a native typed constant with value \<^verbatim>\<open>5\<close>
  whose name is the one \<^verbatim>\<open>camel_case\<close> gives, \<^verbatim>\<open>KMax\<close>, and excludes the original
  symbol from direct binding by an \<^verbatim>\<open>%ignore\<close> line.
\<close>

theorem constants_visit_kMax:
  assumes f1: "\<not> startswith fqn ''Urho3D::IsFlagSet''"
    and f2: "\<not> startswith fqn ''Urho3D::FlagSet''"
  shows "constants_visit re_sub_assign (kMax_node fqn) st =
           Inr (True, st\<lparr>fp := fp st @ ''%ignore '' @ fqn @ '';'' @ nl,
                          cs_code := cs_code st @ [''  public const int KMax = 5;'' @ nl]\<rparr>)"
proof -
  have a: "cv_kind (kMax_node fqn) = VAR_DECL" "cv_parent_kind (kMax_node fqn) = NAMESPACE"
    "cv_spelling (kMax_node fqn) = ''kMax''" "cv_fqn (kMax_node fqn) = fqn"
    "cv_is_const_qualified (kMax_node fqn)"
    by (simp_all add: kMax_node_def)
  show ?thesis
    using f1 f2
    by (simp add: constants_visit_def a kMax_guards camel_case_kMax extract_literal_kMax
        truthy_def)
qed

theorem constants_visit_kMax_witness:
  "constants_visit (\<lambda>spelling ln. ln) (kMax_node ''Urho3D::kMax'') \<lparr>fp = [], cs_code = []\<rparr> =
     Inr (True, \<lparr>fp = ''%ignore Urho3D::kMax;'' @ nl,
                 cs_code = [''  public const int KMax = 5;'' @ nl]\<rparr>)"
  using constants_visit_kMax[OF fqn_kMax_guards(1) fqn_kMax_guards(2),
      of "\<lambda>spelling ln. ln" "\<lparr>fp = [], cs_code = []\<rparr>"]
  by simp

text \<open>
  The constant of \<^verbatim>\<open>kMax\<close> is not named \<^verbatim>\<open>Max\<close>: no prefix is removed. And for
  \<^verbatim>\<open>static const char* kName = "foo";\<close> the visit returns at line 164, the variable not
  being const, with nothing written and nothing appended.
\<close>

theorem constants_visit_name_counterexample:
  "constants_visit (\<lambda>spelling ln. ln) (kMax_node ''Urho3D::kMax'') \<lparr>fp = [], cs_code = []\<rparr> =
     Inr (True, \<lparr>fp = ''%ignore Urho3D::kMax;'' @ nl,
                 cs_code = [''  public const int KMax = 5;'' @ nl]\<rparr>)
   \<and> ''  public const int KMax = 5;'' @ nl \<noteq> ''  public const int Max = 5;'' @ nl
   \<and> camel_case (Str ''kMax'') \<noteq> Inr (Str ''Max'')
   \<and> constants_visit (\<lambda>spelling ln. ln) (kName_node ''Urho3D::kName'') \<lparr>fp = [], cs_code = []\<rparr> =
     Inr (False, \<lparr>fp = [], cs_code = []\<rparr>)"
proof -
  have 1: "constants_visit (\<lambda>spelling ln. ln) (kMax_node ''Urho3D::kMax'') \<lparr>fp = [], cs_code = []\<rparr> =
     Inr (True, \<lparr>fp = ''%ignore Urho3D::kMax;'' @ nl,
                 cs_code = [''  public const int KMax = 5;'' @ nl]\<rparr>)"
    by (simp add: constants_visit_def kMax_node_def kMax_guards fqn_kMax_guards camel_case_kMax
        extract_literal_kMax[unfolded kMax_node_def] truthy_def)
  have 2: "''  public const int KMax = 5;'' @ nl \<noteq> ''  public const int Max = 5;'' @ nl"
    by simp
  have 3: "camel_case (Str ''kMax'') \<noteq> Inr (Str ''Max'')"
    by (simp add: camel_case_kMax)
  have 4: "constants_visit (\<lambda>spelling ln. ln) (kName_node ''Urho3D::kName'') \<lparr>fp = [], cs_code = []\<rparr> =
     Inr (False, \<lparr>fp = [], cs_code = []\<rparr>)"
    by (simp add: constants_visit_def kName_node_def kMax_guards fqn_kMax_guards camel_case_kName)
  from 1 2 3 4 show ?thesis by (intro conjI)
qed

section \<open>Properties of the property synthesis pass\<close>


lemma paired_SetHealth:
  "paired_setter ''Health'' int_type [GetHealth, SetHealth] = Some SetHealth"
  by (simp add: paired_setter_def find_setter_def GetHealth_def SetHealth_def int_type_def)


lemma camel_case_GetHealth: "camel_case (Str ''GetHealth'') = Inr (Str ''GetHealth'')"
  by code_simp
lemma camel_case_SetHealth: "camel_case (Str ''SetHealth'') = Inr (Str ''SetHealth'')"
  by code_simp

lemma name_taken_Health: "name_taken ''Health'' [GetHealth, SetHealth] = Inr False"
  by (simp add: GetHealth_def SetHealth_def camel_case_GetHealth camel_case_SetHealth)

lemma clean_int: "clean_cstype (\<lambda>s. s) ''int'' = ''int''"
  by (simp add: clean_cstype_def startswith_def)

lemma visit_GetHealth_SetHealth:
  "properties_visit (\<lambda>s. s) GetHealth [GetHealth, SetHealth] ENTER
      \<lparr>ps_fp = [], properties = Some [], method_attribs = Some [], stdout = []\<rparr>
   = Inr (Some True,
      \<lparr>ps_fp = [],
       properties = Some [''  public $typemap(cstype, int) Health {'',
                          ''    get { return GetHealth(); }'',
                          ''    set { SetHealth(value); }'', ''  }''],
       method_attribs = Some [''%csmethodmodifiers Actor::GetHealth '' @ dquote # ''private'' @ dquote # '';'',
                              ''%csmethodmodifiers Actor::SetHealth '' @ dquote # ''private'' @ dquote # '';''],
       stdout = []\<rparr>)"
proof -
  have g: "m_kind GetHealth = CXX_METHOD" "m_access GetHealth = PUBLIC" "\<not> m_is_static GetHealth"
    "\<not> m_is_virtual GetHealth" "m_spelling GetHealth = ''GetHealth''" "m_arguments GetHealth = []"
    "m_result_type GetHealth = Some int_type" "m_fqn GetHealth = ''Actor::GetHealth''"
    by (simp_all add: GetHealth_def)
  have s: "m_spelling SetHealth = ''SetHealth''" "m_fqn SetHealth = ''Actor::SetHealth''"
    by (simp_all add: SetHealth_def)
  have t: "td_spelling int_type = ''int''" "td_canonical int_type = ''int''"
    by (simp_all add: int_type_def)
  show ?thesis
    by (simp add: properties_visit_def emit_property_def g s t startswith_def Let_def
        name_taken_Health paired_SetHealth clean_int del: name_taken.simps)
qed

subsection \<open>C5: the setter paired with a getter\<close>




subsection \<open>C6: a virtual getter is rejected\<close>

text \<open>
  C6. For every public, non-static method whose name starts with \<^verbatim>\<open>Get\<close> or \<^verbatim>\<open>Is\<close>
  and that is virtual, with or without parameters, the visit on entering the node changes
  nothing but the printed lines, to which it adds the one line of the diagnostic; it
  returns \<^verbatim>\<open>False\<close> and raises nothing, and the visit on leaving the node changes
  nothing.
\<close>

theorem virtual_getter_rejected:
  assumes "m_kind getter = CXX_METHOD" and "m_access getter = PUBLIC"
    and "\<not> m_is_static getter"
    and "startswith (m_spelling getter) ''Get'' \<or> startswith (m_spelling getter) ''Is''"
    and "m_is_virtual getter"
  shows "properties_visit re_sub_rules getter children ENTER st =
           Inr (Some False, st\<lparr>stdout := stdout st @ [''Ignore '' @ m_fqn getter @ '': virtual'']\<rparr>)
       \<and> properties_visit re_sub_rules getter children LEAVE st = Inr (None, st)"
  using assms by (auto simp: properties_visit_def properties_leave_def Let_def)

theorem virtual_getter_rejected_witness:
  "properties_visit (\<lambda>s. s) virtual_GetHealth [virtual_GetHealth] ENTER
      \<lparr>ps_fp = [], properties = Some [], method_attribs = Some [], stdout = []\<rparr>
     = Inr (Some False, \<lparr>ps_fp = [], properties = Some [], method_attribs = Some [],
                         stdout = [''Ignore Actor::GetHealth: virtual'']\<rparr>)
   \<and> properties_visit (\<lambda>s. s) virtual_GetHealth [virtual_GetHealth] LEAVE
      \<lparr>ps_fp = [], properties = Some [], method_attribs = Some [], stdout = []\<rparr>
     = Inr (None, \<lparr>ps_fp = [], properties = Some [], method_attribs = Some [], stdout = []\<rparr>)"
proof -
  have a: "m_kind virtual_GetHealth = CXX_METHOD" "m_access virtual_GetHealth = PUBLIC"
    "\<not> m_is_static virtual_GetHealth" "m_is_virtual virtual_GetHealth"
    by (simp_all add: virtual_GetHealth_def GetHealth_def)
  have b: "startswith (m_spelling virtual_GetHealth) ''Get''
         \<or> startswith (m_spelling virtual_GetHealth) ''Is''"
    by (simp add: virtual_GetHealth_def GetHealth_def startswith_def)
  have f: "m_fqn virtual_GetHealth = ''Actor::GetHealth''"
    by (simp add: virtual_GetHealth_def GetHealth_def)
  from virtual_getter_rejected[OF a(1) a(2) a(3) b a(4), of "\<lambda>s. s" "[virtual_GetHealth]"
      "\<lparr>ps_fp = [], properties = Some [], method_attribs = Some [], stdout = []\<rparr>"]
  show ?thesis by (simp add: f)
qed

section \<open>Properties of the event metadata pass\<close>

lemma index_of_mem: "x \<in> set xs \<Longrightarrow> \<exists>i. index_of x xs = Some i"
  by (induction xs) auto

lemma event_params_extends:
  "\<exists>t. snd (event_params re codes out) = out @ t"
proof (induction codes arbitrary: out)
  case Nil
  then show ?case by simp
next
  case (Cons code rest)
  show ?case
  proof (cases "re code")
    case None
    then show ?thesis by simp
  next
    case (Some param_name)
    show ?thesis
    proof (cases "camel_case (Str param_name)")
      case (Inl e)
      with Some show ?thesis by simp
    next
      case (Inr r)
      show ?thesis
      proof (cases r)
        case (Seq xs)
        with Some Inr show ?thesis by simp
      next
        case (Str var_name)
        from Cons[of "out @ event_param_line var_name param_name"]
        obtain t where "snd (event_params re rest (out @ event_param_line var_name param_name))
                        = (out @ event_param_line var_name param_name) @ t"
          by blast
        with Some Inr Str show ?thesis by simp
      qed
    qed
  qed
qed

lemma event_header_nonempty: "event_header ns \<noteq> []"
  by (simp add: event_header_def)

lemma events_emitted_differs:
  assumes "ev_kind next_node = NAMESPACE"
  shows "snd (case event_params re (ev_children_code next_node)
                    (out @ event_header (ev_spelling next_node)) of
                (Some e, out') \<Rightarrow> (Inl e, out')
              | (None, out') \<Rightarrow> (Inr True, out' @ event_footer (ev_spelling next_node))) \<noteq> out"
proof -
  obtain r out' where p: "event_params re (ev_children_code next_node)
                    (out @ event_header (ev_spelling next_node)) = (r, out')"
    by (cases "event_params re (ev_children_code next_node)
                    (out @ event_header (ev_spelling next_node))") auto
  from event_params_extends[of re "ev_children_code next_node"
      "out @ event_header (ev_spelling next_node)"] p
  obtain t where t: "out' = (out @ event_header (ev_spelling next_node)) @ t" by auto
  have "length out < length out'" using t event_header_nonempty[of "ev_spelling next_node"]
    by (cases "event_header (ev_spelling next_node)") auto
  then have "out' \<noteq> out" "out' @ event_footer (ev_spelling next_node) \<noteq> out" by auto
  with p show ?thesis by (cases r) auto
qed

subsection \<open>C7: when an event descriptor is emitted\<close>

text \<open>
  C7, as the code has it. For a node of kind \<^verbatim>\<open>VAR_DECL\<close> whose type is spelled
  \<^verbatim>\<open>const Urho3D::StringHash\<close> and whose name starts with \<^verbatim>\<open>E_\<close>, among ASCII-named
  siblings, the visit writes to \<^verbatim>\<open>_events.i\<close> if and only if the next sibling is a
  namespace whose name, lowercased, equals the name of the constant with the prefix
  stripped, underscores stripped, and lowercased. The underscores of the name of the
  namespace are kept.
\<close>

theorem events_visit_emits_iff:
  assumes k: "ev_kind node = VAR_DECL"
    and t: "ev_type_spelling node = ''const Urho3D::StringHash''"
    and e: "startswith (ev_spelling node) ''E_''"
    and m: "node \<in> set siblings"
    and a: "\<forall>n \<in> set siblings. isascii (ev_spelling n)"
  shows "snd (events_visit re_param_name node siblings out) \<noteq> out \<longleftrightarrow>
         (\<exists>next_node. next_sibling node siblings = Some next_node
            \<and> ev_kind next_node = NAMESPACE
            \<and> lower (ev_spelling next_node)
                = lower (filter (\<lambda>c. c \<noteq> CHR ''_'') (drop 2 (ev_spelling node))))"
proof -
  from m obtain i where i: "index_of node siblings = Some i"
    by (blast dest: index_of_mem)
  show ?thesis
  proof (cases "i + 1 < length siblings")
    case False
    with k t e i show ?thesis
      by (simp add: events_visit_def next_sibling_def)
  next
    case True
    define n where "n = siblings ! (i + 1)"
    have ns: "next_sibling node siblings = Some n"
      using i True by (simp add: next_sibling_def n_def)
    have v: "events_visit re_param_name node siblings out =
        (if ev_kind n = NAMESPACE
            \<and> lower (ev_spelling n) = lower (filter (\<lambda>c. c \<noteq> CHR ''_'') (drop 2 (ev_spelling node)))
         then (case event_params re_param_name (ev_children_code n)
                      (out @ event_header (ev_spelling n)) of
                 (Some e, out') \<Rightarrow> (Inl e, out')
               | (None, out') \<Rightarrow> (Inr True, out' @ event_footer (ev_spelling n)))
         else (Inr True, out))"
      unfolding events_visit_def Let_def n_def
      by (simp only: k t e i True simp_thms if_True if_False option.case)
    show ?thesis
    proof (cases "ev_kind n = NAMESPACE
        \<and> lower (ev_spelling n) = lower (filter (\<lambda>c. c \<noteq> CHR ''_'') (drop 2 (ev_spelling node)))")
      case c: True
      then have "ev_kind n = NAMESPACE" by simp
      from events_emitted_differs[OF this, of re_param_name out]
      have "snd (events_visit re_param_name node siblings out) \<noteq> out"
        using c by (simp only: v if_True simp_thms)
      with ns c show ?thesis by simp
    next
      case c: False
      then have "snd (events_visit re_param_name node siblings out) = out"
        by (simp only: v if_False snd_conv)
      with ns c show ?thesis by auto
    qed
  qed
qed

lemma lower_KeyDown:
  "lower ''KeyDown'' = lower (filter (\<lambda>c. c \<noteq> CHR ''_'') (drop 2 ''E_KEYDOWN''))"
  by code_simp

lemma lower_Key_Down_differs:
  "lower ''Key_Down'' \<noteq> lower (filter (\<lambda>c. c \<noteq> CHR ''_'') (drop 2 ''E_KEYDOWN''))"
  by code_simp

lemma lower_Key_Down_stripped:
  "lower (filter (\<lambda>c. c \<noteq> CHR ''_'') ''Key_Down'')
     = lower (filter (\<lambda>c. c \<noteq> CHR ''_'') (drop 2 ''E_KEYDOWN''))"
  by code_simp

lemma KeyDown_siblings_ascii:
  "\<forall>n \<in> set [E_KEYDOWN, event_namespace ''KeyDown'']. isascii (ev_spelling n)"
  by (simp add: E_KEYDOWN_def event_namespace_def isascii_def)

lemma E_KEYDOWN_fields:
  "ev_kind E_KEYDOWN = VAR_DECL" "ev_type_spelling E_KEYDOWN = ''const Urho3D::StringHash''"
  "startswith (ev_spelling E_KEYDOWN) ''E_''" "ev_spelling E_KEYDOWN = ''E_KEYDOWN''"
  by (simp_all add: E_KEYDOWN_def startswith_def)

lemma next_of_E_KEYDOWN:
  "next_sibling E_KEYDOWN [E_KEYDOWN, event_namespace name] = Some (event_namespace name)"
  by (simp add: next_sibling_def)

theorem events_visit_emits_iff_witness:
  "next_sibling E_KEYDOWN [E_KEYDOWN, event_namespace ''KeyDown'']
     = Some (event_namespace ''KeyDown'')
   \<and> snd (events_visit (\<lambda>code. None) E_KEYDOWN [E_KEYDOWN, event_namespace ''KeyDown''] [])
       \<noteq> []"
proof -
  have m: "E_KEYDOWN \<in> set [E_KEYDOWN, event_namespace ''KeyDown'']" by simp
  have r: "\<exists>next_node. next_sibling E_KEYDOWN [E_KEYDOWN, event_namespace ''KeyDown'']
              = Some next_node
            \<and> ev_kind next_node = NAMESPACE
            \<and> lower (ev_spelling next_node)
                = lower (filter (\<lambda>c. c \<noteq> CHR ''_'') (drop 2 (ev_spelling E_KEYDOWN)))"
    using lower_KeyDown
    by (simp add: next_of_E_KEYDOWN E_KEYDOWN_fields(4)) (simp add: event_namespace_def)
  from events_visit_emits_iff[OF E_KEYDOWN_fields(1) E_KEYDOWN_fields(2) E_KEYDOWN_fields(3)
      m KeyDown_siblings_ascii, of "\<lambda>code. None" "[]"] r
  have "snd (events_visit (\<lambda>code. None) E_KEYDOWN [E_KEYDOWN, event_namespace ''KeyDown''] [])
       \<noteq> []"
    by (rule iffD2)
  with next_of_E_KEYDOWN show ?thesis by (intro conjI)
qed

text \<open>
  After \<^verbatim>\<open>E_KEYDOWN\<close> the namespace \<^verbatim>\<open>Key_Down\<close>, whose name lowercased with the
  underscores stripped is \<^verbatim>\<open>keydown\<close>, is not recognized: nothing is written.
\<close>

theorem events_visit_underscore_counterexample:
  "next_sibling E_KEYDOWN [E_KEYDOWN, event_namespace ''Key_Down'']
     = Some (event_namespace ''Key_Down'')
   \<and> ev_kind (event_namespace ''Key_Down'') = NAMESPACE
   \<and> lower (filter (\<lambda>c. c \<noteq> CHR ''_'') (ev_spelling (event_namespace ''Key_Down'')))
       = lower (filter (\<lambda>c. c \<noteq> CHR ''_'') (drop 2 (ev_spelling E_KEYDOWN)))
   \<and> events_visit (\<lambda>code. None) E_KEYDOWN [E_KEYDOWN, event_namespace ''Key_Down''] []
       = (Inr True, [])"
proof -
  have 1: "ev_kind (event_namespace ''Key_Down'') = NAMESPACE"
    by (simp add: event_namespace_def)
  have 2: "lower (filter (\<lambda>c. c \<noteq> CHR ''_'') (ev_spelling (event_namespace ''Key_Down'')))
       = lower (filter (\<lambda>c. c \<noteq> CHR ''_'') (drop 2 (ev_spelling E_KEYDOWN)))"
    using lower_Key_Down_stripped by (simp add: event_namespace_def E_KEYDOWN_def)
  have i: "index_of E_KEYDOWN [E_KEYDOWN, event_namespace ''Key_Down''] = Some 0" by simp
  have s: "ev_spelling (event_namespace ''Key_Down'') = ''Key_Down''"
    by (simp add: event_namespace_def)
  have 3: "events_visit (\<lambda>code. None) E_KEYDOWN [E_KEYDOWN, event_namespace ''Key_Down''] []
       = (Inr True, [])"
    unfolding events_visit_def Let_def
    using lower_Key_Down_differs
    by (simp add: E_KEYDOWN_fields i s del: index_of.simps)
  from next_of_E_KEYDOWN 1 2 3 show ?thesis by (intro conjI)
qed

section \<open>Properties of the output files\<close>

lemma open_append_same:
  "open_append name fs name = Some (case fs name of None \<Rightarrow> [] | Some content \<Rightarrow> content)"
  by (simp add: open_append_def split: option.splits)

lemma open_append_other: "other \<noteq> name \<Longrightarrow> open_append name fs other = fs other"
  by (simp add: open_append_def split: option.splits)

lemma file_write_same:
  "fs name = Some content \<Longrightarrow> file_write name text fs name = Some (content @ text)"
  by (simp add: file_write_def)

lemma file_write_other: "other \<noteq> name \<Longrightarrow> file_write name text fs other = fs other"
  by (simp add: file_write_def split: option.splits)

lemma properties_on_file_begin_opens:
  assumes "properties_on_file_begin input output abs_path fs = Some (file_name, fs1)"
  shows "fs1 = open_append file_name fs"
  using assms by (auto simp add: properties_on_file_begin_def Let_def split: if_splits)

lemma properties_on_file_end_empty:
  "fs name = Some [] \<Longrightarrow> properties_on_file_end name fs = Inr (fs(name := None))"
  by (simp add: properties_on_file_end_def)

lemma properties_on_file_end_nonempty:
  "fs name = Some content \<Longrightarrow> content \<noteq> [] \<Longrightarrow> properties_on_file_end name fs = Inr fs"
  by (simp add: properties_on_file_end_def)

lemma Scene_file_name:
  "path_join ''/out'' (''_properties_'' @ lower (hd (split_on CHR ''/''
       (strip {CHR ''/''} (drop (length ''/src/Urho3D'') ''/src/Urho3D/Scene/Node.h'')))) @ ''.i'')
     = ''/out/_properties_scene.i''"
  by code_simp

lemma Scene_startswith: "startswith ''/src/Urho3D/Scene/Node.h'' ''/src/Urho3D''"
  by code_simp

lemma Scene_begin:
  "properties_on_file_begin ''/src/Urho3D'' ''/out'' ''/src/Urho3D/Scene/Node.h'' Map.empty
     = Some (''/out/_properties_scene.i'', [''/out/_properties_scene.i'' \<mapsto> []])"
  unfolding properties_on_file_begin_def Let_def Scene_file_name
  by (simp only: Scene_startswith if_True open_append_def option.case)

lemma Color_visits: "clean_enum_visits [Color_enum] [] [] = Inr []"
  by code_simp

lemma enums_path: "path_join ''/out'' ''_enums.i'' = ''/out/_enums.i''"
  by code_simp

subsection \<open>C8: an artifact that ends up empty\<close>

text \<open>
  C8, for the artifacts of the property synthesis pass, which are scoped to a file: when
  \<^verbatim>\<open>on_file_begin\<close> has opened the artifact and \<open>written\<close> is the text the visits of the
  file wrote to it, \<^verbatim>\<open>on_file_end\<close> returns, and after it the artifact is not there when
  its content was empty and holds its content otherwise: it is never left as a file of no
  byte. No other file is touched.
\<close>

theorem properties_artifact_deleted_if_empty:
  assumes "properties_on_file_begin input output abs_path fs = Some (file_name, fs1)"
  shows "\<exists>content fs2.
           file_write file_name written fs1 file_name = Some content
         \<and> properties_on_file_end file_name (file_write file_name written fs1) = Inr fs2
         \<and> fs2 file_name = (if content = [] then None else Some content)
         \<and> fs2 file_name \<noteq> Some []
         \<and> (\<forall>other. other \<noteq> file_name \<longrightarrow> fs2 other = fs other)"
proof -
  define old where "old = (case fs file_name of None \<Rightarrow> [] | Some content \<Rightarrow> content)"
  define fs' where "fs' = file_write file_name written fs1"
  have fs1: "fs1 = open_append file_name fs"
    using assms by (rule properties_on_file_begin_opens)
  have content: "fs' file_name = Some (old @ written)"
    unfolding fs1 fs'_def old_def by (rule file_write_same) (rule open_append_same)
  have other: "fs' other = fs other" if "other \<noteq> file_name" for other
    using that by (simp add: fs'_def fs1 file_write_other open_append_other)
  show ?thesis
  proof (cases "old @ written = []")
    case True
    have "properties_on_file_end file_name fs' = Inr (fs'(file_name := None))"
      using content True by (simp add: properties_on_file_end_empty)
    moreover have "(fs'(file_name := None)) file_name = None" by simp
    moreover have "\<forall>other. other \<noteq> file_name \<longrightarrow> (fs'(file_name := None)) other = fs other"
      using other by simp
    ultimately have "fs' file_name = Some (old @ written)
         \<and> properties_on_file_end file_name fs' = Inr (fs'(file_name := None))
         \<and> (fs'(file_name := None)) file_name = (if old @ written = [] then None else Some (old @ written))
         \<and> (fs'(file_name := None)) file_name \<noteq> Some []
         \<and> (\<forall>other. other \<noteq> file_name \<longrightarrow> (fs'(file_name := None)) other = fs other)"
      using content True by simp
    then show ?thesis unfolding fs'_def by blast
  next
    case False
    have "properties_on_file_end file_name fs' = Inr fs'"
      using content False by (rule properties_on_file_end_nonempty)
    then have "fs' file_name = Some (old @ written)
         \<and> properties_on_file_end file_name fs' = Inr fs'
         \<and> fs' file_name = (if old @ written = [] then None else Some (old @ written))
         \<and> fs' file_name \<noteq> Some []
         \<and> (\<forall>other. other \<noteq> file_name \<longrightarrow> fs' other = fs other)"
      using content False other by simp
    then show ?thesis unfolding fs'_def by blast
  qed
qed

theorem properties_artifact_deleted_if_empty_witness:
  "properties_on_file_begin ''/src/Urho3D'' ''/out'' ''/src/Urho3D/Scene/Node.h'' Map.empty
     = Some (''/out/_properties_scene.i'', [''/out/_properties_scene.i'' \<mapsto> []])
   \<and> (\<exists>fs2. properties_on_file_end ''/out/_properties_scene.i''
               (file_write ''/out/_properties_scene.i'' []
                  [''/out/_properties_scene.i'' \<mapsto> []]) = Inr fs2
            \<and> fs2 ''/out/_properties_scene.i'' = None)"
  using properties_artifact_deleted_if_empty [OF Scene_begin, of "[]"] Scene_begin
  by (auto simp: file_write_def)

text \<open>
  The artifact of \<^verbatim>\<open>CleanEnumValues\<close> is scoped to the run. A run over the one
  enumeration \<^verbatim>\<open>enum Color { Red };\<close>, with no flag enumeration registered, writes
  nothing, and \<^verbatim>\<open>_enums.i\<close> is left in the output directory with no byte in it.
\<close>

theorem enums_artifact_left_empty_counterexample:
  "clean_enum_run ''/out'' [Color_enum] [] Map.empty = Inr [''/out/_enums.i'' \<mapsto> []]"
  unfolding clean_enum_run_def enums_on_begin_def enums_on_end_def Color_visits enums_path Let_def
  by (simp add: open_truncate_def file_write_def)

section \<open>Properties of a run of the pipeline\<close>

lemma map_of_in_iteration_order:
  "map_of (in_iteration_order set_order pc) c = map_option set_order (map_of pc c)"
  unfolding in_iteration_order_def by (induction pc) auto

lemma recorded_in_iteration_order:
  "recorded (in_iteration_order set_order pc) c = recorded pc c"
  by (simp add: recorded_def map_of_in_iteration_order)

lemma base_edges_in_iteration_order:
  assumes "\<forall>xs. set (set_order xs) = set xs"
  shows "base_edges (in_iteration_order set_order pc) = base_edges pc"
  using assms unfolding base_edges_def by (auto simp add: map_of_in_iteration_order)

lemma recorded_keys: "c \<in> set (map fst pc) \<Longrightarrow> recorded pc c"
  unfolding recorded_def by (induction pc) auto

lemma refcounted_lines_agree:
  assumes "refcounted_lines n pc keys = Some (Inr ls)"
      and "refcounted_lines m pc' keys = Some (Inr ls')"
      and "base_edges pc = base_edges pc'"
      and "\<forall>k \<in> set keys. recorded pc k \<and> recorded pc' k"
  shows "ls = ls'"
  using assms
proof (induction keys arbitrary: ls ls')
  case Nil
  then show ?case by simp
next
  case (Cons k keys)
  from Cons.prems(1) obtain found rest where
    f: "is_subclass_of n pc k ''Urho3D::RefCounted'' = Some (Inr found)" and
    r: "refcounted_lines n pc keys = Some (Inr rest)" and
    ls: "ls = (if found then [''URHO3D_REFCOUNTED('' @ k @ '');'' @ [CHR 0x0A]] else []) @ rest"
    by (auto split: option.splits sum.splits)
  from Cons.prems(2) obtain found' rest' where
    f': "is_subclass_of m pc' k ''Urho3D::RefCounted'' = Some (Inr found')" and
    r': "refcounted_lines m pc' keys = Some (Inr rest')" and
    ls': "ls' = (if found' then [''URHO3D_REFCOUNTED('' @ k @ '');'' @ [CHR 0x0A]] else []) @ rest'"
    by (auto split: option.splits sum.splits)
  have rk: "recorded pc k" "recorded pc' k" using Cons.prems(4) by simp_all
  have "Inr found = (Inr (k = ''Urho3D::RefCounted'' \<or> (k, ''Urho3D::RefCounted'') \<in> (base_edges pc)\<^sup>+) :: py_error + bool)"
    using is_subclass_of_sound(1)[OF f] rk by simp
  moreover have "Inr found' = (Inr (k = ''Urho3D::RefCounted'' \<or> (k, ''Urho3D::RefCounted'') \<in> (base_edges pc')\<^sup>+) :: py_error + bool)"
    using is_subclass_of_sound(1)[OF f'] rk by simp
  ultimately have "found = found'" using Cons.prems(3) by simp
  moreover have "rest = rest'"
    using Cons.IH[OF r r' Cons.prems(3)] Cons.prems(4) by simp
  ultimately show ?case using ls ls' by simp
qed

lemma refcounted_lines_total:
  assumes ac: "acyclic (base_edges pc)"
      and keys: "\<forall>k \<in> set keys. recorded pc k"
  shows "\<exists>n. \<forall>limit. n \<le> limit \<longrightarrow> (\<exists>ls. refcounted_lines limit pc keys = Some (Inr ls))"
  using keys
proof (induction keys)
  case Nil
  then show ?case by simp
next
  case (Cons k keys)
  from Cons.prems obtain bases where b: "map_of pc k = Some bases"
    by (auto simp: recorded_def)
  from is_subclass_of_total[OF ac b, of "''Urho3D::RefCounted''"] obtain n1 where
    n1: "\<forall>depth. n1 \<le> depth \<longrightarrow> (\<exists>r. is_subclass_of depth pc k ''Urho3D::RefCounted'' = Some (Inr r))"
    by blast
  from Cons.IH Cons.prems obtain n2 where
    n2: "\<forall>limit. n2 \<le> limit \<longrightarrow> (\<exists>ls. refcounted_lines limit pc keys = Some (Inr ls))"
    by auto
  have "\<forall>limit. max n1 n2 \<le> limit \<longrightarrow> (\<exists>ls. refcounted_lines limit pc (k # keys) = Some (Inr ls))"
  proof (intro allI impI)
    fix limit assume l: "max n1 n2 \<le> limit"
    from n1 l obtain r where "is_subclass_of limit pc k ''Urho3D::RefCounted'' = Some (Inr r)"
      by auto
    moreover from n2 l obtain ls where "refcounted_lines limit pc keys = Some (Inr ls)" by auto
    ultimately show "\<exists>ls. refcounted_lines limit pc (k # keys) = Some (Inr ls)" by simp
  qed
  then show ?case by blast
qed

lemma files_written_twice:
  "(fs(a \<mapsto> x, b \<mapsto> y, c \<mapsto> z, d \<mapsto> w))(a \<mapsto> x, b \<mapsto> y, c \<mapsto> z, d \<mapsto> w)
     = fs(a \<mapsto> x, b \<mapsto> y, c \<mapsto> z, d \<mapsto> w)"
  by (rule ext) simp

lemma pipeline_on_end_Inr:
  assumes "pipeline_on_end limit set_order output st fs = Some (Inr (st1, fs1))"
  shows "\<exists>ls. refcounted_lines limit (in_iteration_order set_order (pl_parent_classes st))
                 (map fst (pl_parent_classes st)) = Some (Inr ls)
           \<and> st1 = st\<lparr>pl_constants := constants_on_end (pl_constants st),
                       pl_events_fp := events_on_end (pl_events_fp st)\<rparr>
           \<and> fs1 = fs(path_join output ''_constants.i'' \<mapsto> fp (constants_on_end (pl_constants st)),
                       path_join output ''_refcounted.i'' \<mapsto> concat ls,
                       path_join output ''_enums.i'' \<mapsto> pl_enums_fp st,
                       path_join output ''_events.i'' \<mapsto> events_on_end (pl_events_fp st))"
  using assms unfolding pipeline_on_end_def Let_def
  by (auto split: option.splits sum.splits)

lemma pipeline_on_end_again:
  assumes p1: "\<forall>xs. set (set_order1 xs) = set xs"
      and p2: "\<forall>xs. set (set_order2 xs) = set xs"
      and first: "pipeline_on_end limit1 set_order1 output st fs = Some (Inr (st1, fs1))"
      and ac: "acyclic (base_edges (pl_parent_classes st))"
  shows "\<exists>n. \<forall>limit2. n \<le> limit2 \<longrightarrow>
           pipeline_on_end limit2 set_order2 output st fs1 = Some (Inr (st1, fs1))"
proof -
  let ?pc = "pl_parent_classes st"
  let ?keys = "map fst ?pc"
  from pipeline_on_end_Inr[OF first] obtain ls where
    ls: "refcounted_lines limit1 (in_iteration_order set_order1 ?pc) ?keys = Some (Inr ls)" and
    st1: "st1 = st\<lparr>pl_constants := constants_on_end (pl_constants st),
                       pl_events_fp := events_on_end (pl_events_fp st)\<rparr>" and
    fs1: "fs1 = fs(path_join output ''_constants.i'' \<mapsto> fp (constants_on_end (pl_constants st)),
                       path_join output ''_refcounted.i'' \<mapsto> concat ls,
                       path_join output ''_enums.i'' \<mapsto> pl_enums_fp st,
                       path_join output ''_events.i'' \<mapsto> events_on_end (pl_events_fp st))"
    by blast
  have e1: "base_edges (in_iteration_order set_order1 ?pc) = base_edges ?pc"
    using p1 by (rule base_edges_in_iteration_order)
  have e2: "base_edges (in_iteration_order set_order2 ?pc) = base_edges ?pc"
    using p2 by (rule base_edges_in_iteration_order)
  have k1: "\<forall>k \<in> set ?keys. recorded (in_iteration_order set_order1 ?pc) k"
    using recorded_keys by (simp add: recorded_in_iteration_order)
  have k2: "\<forall>k \<in> set ?keys. recorded (in_iteration_order set_order2 ?pc) k"
    using recorded_keys by (simp add: recorded_in_iteration_order)
  have "acyclic (base_edges (in_iteration_order set_order2 ?pc))" using ac e2 by simp
  from refcounted_lines_total[OF this k2] obtain n where
    n: "\<forall>limit. n \<le> limit \<longrightarrow>
          (\<exists>ls'. refcounted_lines limit (in_iteration_order set_order2 ?pc) ?keys = Some (Inr ls'))"
    by blast
  have "\<forall>limit2. n \<le> limit2 \<longrightarrow>
           pipeline_on_end limit2 set_order2 output st fs1 = Some (Inr (st1, fs1))"
  proof (intro allI impI)
    fix limit2 assume "n \<le> limit2"
    with n obtain ls' where
      ls': "refcounted_lines limit2 (in_iteration_order set_order2 ?pc) ?keys = Some (Inr ls')"
      by blast
    have "ls = ls'"
      using ls ls' by (rule refcounted_lines_agree) (use e1 e2 k1 k2 in simp_all)
    then show "pipeline_on_end limit2 set_order2 output st fs1 = Some (Inr (st1, fs1))"
      unfolding pipeline_on_end_def Let_def using ls' st1 fs1
      by (simp add: files_written_twice)
  qed
  then show ?thesis by blast
qed

lemma Object_Color_visits:
  "pipeline_visits (\<lambda>pattern s. s) (\<lambda>code. None) Object_Color_calls
       (pipeline_on_begin fresh_interpreter)
     = Inr \<lparr>pl_constants = \<lparr>fp = [], cs_code = []\<rparr>,
            pl_parent_classes = [(''Urho3D::Object'', [''Urho3D::RefCounted''])],
            pl_flag_enums = [], pl_enums_fp = [], pl_events_fp = events_on_begin\<rparr>"
  by code_simp

lemma Object_lines:
  "refcounted_lines 3
       (in_iteration_order (\<lambda>xs. xs) [(''Urho3D::Object'', [''Urho3D::RefCounted''])])
       (map fst [(''Urho3D::Object'', [''Urho3D::RefCounted''])])
     = Some (Inr [''URHO3D_REFCOUNTED(Urho3D::Object);'' @ nl])"
  by code_simp

lemma out_paths:
  "path_join ''/out'' ''_constants.i'' = ''/out/_constants.i''"
  "path_join ''/out'' ''_refcounted.i'' = ''/out/_refcounted.i''"
  "path_join ''/out'' ''_enums.i'' = ''/out/_enums.i''"
  "path_join ''/out'' ''_events.i'' = ''/out/_events.i''"
  by code_simp+

lemma out_paths_differ:
  "''/out/_refcounted.i'' \<noteq> ''/out/_enums.i''"
  "''/out/_refcounted.i'' \<noteq> ''/out/_events.i''"
  "''/out/_enums.i'' \<noteq> ''/out/_events.i''"
  by simp_all

lemma Object_edges_ranked:
  "(c, b) \<in> base_edges [(''Urho3D::Object'', [''Urho3D::RefCounted''])] \<Longrightarrow>
   (if b = ''Urho3D::Object'' then 1 else (0::nat)) < (if c = ''Urho3D::Object'' then 1 else 0)"
  by (auto simp: base_edges_def split: if_splits)

lemma Object_acyclic: "acyclic (base_edges [(''Urho3D::Object'', [''Urho3D::RefCounted''])])"
  by (rule acyclic_by_rank[where f = "\<lambda>x. if x = ''Urho3D::Object'' then 1 else 0"])
     (rule Object_edges_ranked)

lemma Object_Color_run:
  "pipeline_run 3 (\<lambda>xs. xs) (\<lambda>pattern s. s) (\<lambda>code. None) ''/out'' Object_Color_calls
       fresh_interpreter Map.empty
     = Some (Inr (\<lparr>pl_constants = constants_on_end \<lparr>fp = [], cs_code = []\<rparr>,
            pl_parent_classes = [(''Urho3D::Object'', [''Urho3D::RefCounted''])],
            pl_flag_enums = [], pl_enums_fp = [], pl_events_fp = events_on_end events_on_begin\<rparr>,
          [''/out/_constants.i'' \<mapsto> fp (constants_on_end \<lparr>fp = [], cs_code = []\<rparr>),
           ''/out/_refcounted.i'' \<mapsto> concat [''URHO3D_REFCOUNTED(Urho3D::Object);'' @ nl],
           ''/out/_enums.i'' \<mapsto> [],
           ''/out/_events.i'' \<mapsto> events_on_end events_on_begin]))"
  unfolding pipeline_run_def Object_Color_visits sum.case pipeline_on_end_def Let_def
  by (simp only: pipeline_state.simps Object_lines option.case sum.case out_paths
        pipeline_state.update_convs)

lemma no_class_lines:
  "refcounted_lines limit (in_iteration_order set_order []) (map fst []) = Some (Inr [])"
  by (simp add: in_iteration_order_def)

lemma kMax_first_visits:
  "pipeline_visits (\<lambda>spelling ln. ln) (\<lambda>code. None) [ConstantsVisit (kMax_node ''Urho3D::kMax'')]
       (pipeline_on_begin fresh_interpreter)
     = Inr \<lparr>pl_constants = \<lparr>fp = ''%ignore Urho3D::kMax;'' @ nl,
                              cs_code = [''  public const int KMax = 5;'' @ nl]\<rparr>,
            pl_parent_classes = [], pl_flag_enums = [], pl_enums_fp = [],
            pl_events_fp = events_on_begin\<rparr>"
  by code_simp

lemma kMax_second_visits:
  "pipeline_visits (\<lambda>spelling ln. ln) (\<lambda>code. None) [ConstantsVisit (kMax_node ''Urho3D::kMax'')]
       (pipeline_on_begin
          \<lparr>pl_constants =
             \<lparr>fp = ''%ignore Urho3D::kMax;'' @ nl @ ''%pragma(csharp) modulecode=%{'' @ nl
                    @ ''  public const int KMax = 5;'' @ nl @ ''%}'' @ nl,
              cs_code = [''  public const int KMax = 5;'' @ nl]\<rparr>,
           pl_parent_classes = [], pl_flag_enums = [], pl_enums_fp = [],
           pl_events_fp = events_on_end events_on_begin\<rparr>)
     = Inr \<lparr>pl_constants = \<lparr>fp = ''%ignore Urho3D::kMax;'' @ nl,
                              cs_code = [''  public const int KMax = 5;'' @ nl,
                                         ''  public const int KMax = 5;'' @ nl]\<rparr>,
            pl_parent_classes = [], pl_flag_enums = [], pl_enums_fp = [],
            pl_events_fp = events_on_begin\<rparr>"
  by code_simp

lemma constants_on_end_kMax:
  "constants_on_end \<lparr>fp = ''%ignore Urho3D::kMax;'' @ nl,
                      cs_code = [''  public const int KMax = 5;'' @ nl]\<rparr>
     = \<lparr>fp = ''%ignore Urho3D::kMax;'' @ nl @ ''%pragma(csharp) modulecode=%{'' @ nl
              @ ''  public const int KMax = 5;'' @ nl @ ''%}'' @ nl,
        cs_code = [''  public const int KMax = 5;'' @ nl]\<rparr>"
  "constants_on_end \<lparr>fp = ''%ignore Urho3D::kMax;'' @ nl,
                      cs_code = [''  public const int KMax = 5;'' @ nl,
                                 ''  public const int KMax = 5;'' @ nl]\<rparr>
     = \<lparr>fp = ''%ignore Urho3D::kMax;'' @ nl @ ''%pragma(csharp) modulecode=%{'' @ nl
              @ ''  public const int KMax = 5;'' @ nl @ ''  public const int KMax = 5;'' @ nl
              @ ''%}'' @ nl,
        cs_code = [''  public const int KMax = 5;'' @ nl,
                   ''  public const int KMax = 5;'' @ nl]\<rparr>"
  by code_simp+

lemma kMax_no_visits:
  "pipeline_visits (\<lambda>spelling ln. ln) (\<lambda>code. None) []
       (pipeline_on_begin
          \<lparr>pl_constants =
             \<lparr>fp = ''%ignore Urho3D::kMax;'' @ nl @ ''%pragma(csharp) modulecode=%{'' @ nl
                    @ ''  public const int KMax = 5;'' @ nl @ ''%}'' @ nl,
              cs_code = [''  public const int KMax = 5;'' @ nl]\<rparr>,
           pl_parent_classes = [], pl_flag_enums = [], pl_enums_fp = [],
           pl_events_fp = events_on_end events_on_begin\<rparr>)
     = Inr \<lparr>pl_constants = \<lparr>fp = [],
                              cs_code = [''  public const int KMax = 5;'' @ nl]\<rparr>,
            pl_parent_classes = [], pl_flag_enums = [], pl_enums_fp = [],
            pl_events_fp = events_on_begin\<rparr>"
  by code_simp

lemma constants_on_end_no_visit:
  "constants_on_end \<lparr>fp = [], cs_code = [''  public const int KMax = 5;'' @ nl]\<rparr>
     = \<lparr>fp = ''%pragma(csharp) modulecode=%{'' @ nl @ ''  public const int KMax = 5;'' @ nl
              @ ''%}'' @ nl,
        cs_code = [''  public const int KMax = 5;'' @ nl]\<rparr>"
  by code_simp

lemma constants_texts_differ_no_visit:
  "''%pragma(csharp) modulecode=%{'' @ nl @ ''  public const int KMax = 5;'' @ nl
       @ ''%}'' @ nl
   \<noteq> ''%ignore Urho3D::kMax;'' @ nl @ ''%pragma(csharp) modulecode=%{'' @ nl
       @ ''  public const int KMax = 5;'' @ nl @ ''%}'' @ nl"
  by code_simp

lemma files_overwritten:
  "(fs(a \<mapsto> x, b \<mapsto> y, c \<mapsto> z, d \<mapsto> w))(a \<mapsto> x', b \<mapsto> y', c \<mapsto> z', d \<mapsto> w')
     = fs(a \<mapsto> x', b \<mapsto> y', c \<mapsto> z', d \<mapsto> w')"
  by (rule ext) simp

lemma concat_no_lines: "concat ([] :: string list) = []"
  by simp

lemma constants_texts_differ:
  "''%ignore Urho3D::kMax;'' @ nl @ ''%pragma(csharp) modulecode=%{'' @ nl
       @ ''  public const int KMax = 5;'' @ nl @ ''  public const int KMax = 5;'' @ nl
       @ ''%}'' @ nl
   \<noteq> ''%ignore Urho3D::kMax;'' @ nl @ ''%pragma(csharp) modulecode=%{'' @ nl
       @ ''  public const int KMax = 5;'' @ nl @ ''%}'' @ nl"
  by code_simp

lemma state_after_on_end:
  "\<lparr>pl_constants = c, pl_parent_classes = p, pl_flag_enums = f, pl_enums_fp = e,
     pl_events_fp = v\<rparr>\<lparr>pl_constants := c', pl_events_fp := v'\<rparr>
   = \<lparr>pl_constants = c', pl_parent_classes = p, pl_flag_enums = f, pl_enums_fp = e,
      pl_events_fp = v'\<rparr>"
  by simp

subsection \<open>C9: running the pipeline twice\<close>

text \<open>
  C9, for two runs of the program, each in an interpreter that has just loaded the module.
  When the first run has returned, with the text of the files it leaves, and the class
  hierarchy it recorded has no cycle, the second run over the same calls, started on the
  files the first run left, returns at every large enough recursion limit and leaves every
  file as it was, byte for byte, and the same state: what the first run left in the output
  directory does not influence the second, and neither does the order in which either
  interpreter iterates over a set.
\<close>

theorem pipeline_run_twice_identical:
  assumes p1: "\<forall>xs. set (set_order1 xs) = set xs"
      and p2: "\<forall>xs. set (set_order2 xs) = set xs"
      and first: "pipeline_run limit1 set_order1 re_sub_assign re_param_name output calls
                    fresh_interpreter fs = Some (Inr (st1, fs1))"
      and ac: "acyclic (base_edges (pl_parent_classes st1))"
  shows "\<exists>n. \<forall>limit2. n \<le> limit2 \<longrightarrow>
           pipeline_run limit2 set_order2 re_sub_assign re_param_name output calls
             fresh_interpreter fs1 = Some (Inr (st1, fs1))"
proof -
  from first obtain st where
    v: "pipeline_visits re_sub_assign re_param_name calls (pipeline_on_begin fresh_interpreter)
          = Inr st" and
    e: "pipeline_on_end limit1 set_order1 output st fs = Some (Inr (st1, fs1))"
    unfolding pipeline_run_def by (auto split: sum.splits)
  from pipeline_on_end_Inr[OF e] have "pl_parent_classes st1 = pl_parent_classes st" by auto
  with ac have "acyclic (base_edges (pl_parent_classes st))" by simp
  from pipeline_on_end_again[OF p1 p2 e this] show ?thesis
    unfolding pipeline_run_def using v by simp
qed


theorem pipeline_run_twice_identical_witness:
  "\<exists>st1 fs1.
     pipeline_run 3 (\<lambda>xs. xs) (\<lambda>pattern s. s) (\<lambda>code. None) ''/out'' Object_Color_calls
       fresh_interpreter Map.empty = Some (Inr (st1, fs1))
   \<and> fs1 ''/out/_refcounted.i'' = Some (''URHO3D_REFCOUNTED(Urho3D::Object);'' @ nl)
   \<and> fs1 ''/out/_enums.i'' = Some []
   \<and> (\<exists>n. \<forall>limit2. n \<le> limit2 \<longrightarrow>
          pipeline_run limit2 rev (\<lambda>pattern s. s) (\<lambda>code. None) ''/out'' Object_Color_calls
            fresh_interpreter fs1 = Some (Inr (st1, fs1)))"
proof -
  have ac: "acyclic (base_edges (pl_parent_classes
       \<lparr>pl_constants = constants_on_end \<lparr>fp = [], cs_code = []\<rparr>,
            pl_parent_classes = [(''Urho3D::Object'', [''Urho3D::RefCounted''])],
            pl_flag_enums = [], pl_enums_fp = [], pl_events_fp = events_on_end events_on_begin\<rparr>))"
    using Object_acyclic by (simp only: pipeline_state.simps)
  have p1: "\<forall>xs::string list. set ((\<lambda>xs. xs) xs) = set xs" by simp
  have p2: "\<forall>xs::string list. set (rev xs) = set xs" by simp
  note again = pipeline_run_twice_identical [OF p1 p2 Object_Color_run ac]
  show ?thesis
    apply (rule exI, rule exI)
    apply (rule conjI, rule Object_Color_run)
    apply (rule conjI, simp add: out_paths_differ)
    apply (rule conjI, simp add: out_paths_differ)
    apply (rule again)
    done
qed

text \<open>
  The accumulators are attributes of the classes and no hook assigns them. A second run in
  the interpreter of the first starts from the lines the first run appended to
  \<^verbatim>\<open>cs_code\<close>: for the declaration \<^verbatim>\<open>static const int kMax = 5;\<close> the first run writes
  the constant once to \<^verbatim>\<open>_constants.i\<close>, and the second run, over the same call, writes
  it twice. Were the call not made again, the decorator \<^verbatim>\<open>AstPass.once\<close> having
  kept the node of the first run, the second run would write the constant without the
  line \<^verbatim>\<open>%ignore\<close>: in both cases \<^verbatim>\<open>_constants.i\<close> differs from the file the first run
  left.
\<close>

theorem pipeline_run_same_interpreter_counterexample:
  "pipeline_run 1 (\<lambda>xs. xs) (\<lambda>spelling ln. ln) (\<lambda>code. None) ''/out''
       [ConstantsVisit (kMax_node ''Urho3D::kMax'')] fresh_interpreter Map.empty
     = Some (Inr (\<lparr>pl_constants =
                      \<lparr>fp = ''%ignore Urho3D::kMax;'' @ nl @ ''%pragma(csharp) modulecode=%{'' @ nl
                             @ ''  public const int KMax = 5;'' @ nl @ ''%}'' @ nl,
                       cs_code = [''  public const int KMax = 5;'' @ nl]\<rparr>,
                    pl_parent_classes = [], pl_flag_enums = [], pl_enums_fp = [],
                    pl_events_fp = events_on_end events_on_begin\<rparr>,
                  [''/out/_constants.i'' \<mapsto>
                     ''%ignore Urho3D::kMax;'' @ nl @ ''%pragma(csharp) modulecode=%{'' @ nl
                     @ ''  public const int KMax = 5;'' @ nl @ ''%}'' @ nl,
                   ''/out/_refcounted.i'' \<mapsto> [],
                   ''/out/_enums.i'' \<mapsto> [],
                   ''/out/_events.i'' \<mapsto> events_on_end events_on_begin]))
   \<and> pipeline_run 1 (\<lambda>xs. xs) (\<lambda>spelling ln. ln) (\<lambda>code. None) ''/out''
       [ConstantsVisit (kMax_node ''Urho3D::kMax'')]
       \<lparr>pl_constants =
          \<lparr>fp = ''%ignore Urho3D::kMax;'' @ nl @ ''%pragma(csharp) modulecode=%{'' @ nl
                 @ ''  public const int KMax = 5;'' @ nl @ ''%}'' @ nl,
           cs_code = [''  public const int KMax = 5;'' @ nl]\<rparr>,
        pl_parent_classes = [], pl_flag_enums = [], pl_enums_fp = [],
        pl_events_fp = events_on_end events_on_begin\<rparr>
       [''/out/_constants.i'' \<mapsto>
          ''%ignore Urho3D::kMax;'' @ nl @ ''%pragma(csharp) modulecode=%{'' @ nl
          @ ''  public const int KMax = 5;'' @ nl @ ''%}'' @ nl,
        ''/out/_refcounted.i'' \<mapsto> [],
        ''/out/_enums.i'' \<mapsto> [],
        ''/out/_events.i'' \<mapsto> events_on_end events_on_begin]
     = Some (Inr (\<lparr>pl_constants =
                      \<lparr>fp = ''%ignore Urho3D::kMax;'' @ nl @ ''%pragma(csharp) modulecode=%{'' @ nl
                             @ ''  public const int KMax = 5;'' @ nl
                             @ ''  public const int KMax = 5;'' @ nl @ ''%}'' @ nl,
                       cs_code = [''  public const int KMax = 5;'' @ nl,
                                  ''  public const int KMax = 5;'' @ nl]\<rparr>,
                    pl_parent_classes = [], pl_flag_enums = [], pl_enums_fp = [],
                    pl_events_fp = events_on_end events_on_begin\<rparr>,
                  [''/out/_constants.i'' \<mapsto>
                     ''%ignore Urho3D::kMax;'' @ nl @ ''%pragma(csharp) modulecode=%{'' @ nl
                     @ ''  public const int KMax = 5;'' @ nl
                     @ ''  public const int KMax = 5;'' @ nl @ ''%}'' @ nl,
                   ''/out/_refcounted.i'' \<mapsto> [],
                   ''/out/_enums.i'' \<mapsto> [],
                   ''/out/_events.i'' \<mapsto> events_on_end events_on_begin]))
   \<and> ''%ignore Urho3D::kMax;'' @ nl @ ''%pragma(csharp) modulecode=%{'' @ nl
       @ ''  public const int KMax = 5;'' @ nl @ ''  public const int KMax = 5;'' @ nl
       @ ''%}'' @ nl
     \<noteq> ''%ignore Urho3D::kMax;'' @ nl @ ''%pragma(csharp) modulecode=%{'' @ nl
       @ ''  public const int KMax = 5;'' @ nl @ ''%}'' @ nl
   \<and> pipeline_run 1 (\<lambda>xs. xs) (\<lambda>spelling ln. ln) (\<lambda>code. None) ''/out'' []
       \<lparr>pl_constants =
          \<lparr>fp = ''%ignore Urho3D::kMax;'' @ nl @ ''%pragma(csharp) modulecode=%{'' @ nl
                 @ ''  public const int KMax = 5;'' @ nl @ ''%}'' @ nl,
           cs_code = [''  public const int KMax = 5;'' @ nl]\<rparr>,
        pl_parent_classes = [], pl_flag_enums = [], pl_enums_fp = [],
        pl_events_fp = events_on_end events_on_begin\<rparr>
       [''/out/_constants.i'' \<mapsto>
          ''%ignore Urho3D::kMax;'' @ nl @ ''%pragma(csharp) modulecode=%{'' @ nl
          @ ''  public const int KMax = 5;'' @ nl @ ''%}'' @ nl,
        ''/out/_refcounted.i'' \<mapsto> [],
        ''/out/_enums.i'' \<mapsto> [],
        ''/out/_events.i'' \<mapsto> events_on_end events_on_begin]
     = Some (Inr (\<lparr>pl_constants =
                      \<lparr>fp = ''%pragma(csharp) modulecode=%{'' @ nl
                             @ ''  public const int KMax = 5;'' @ nl @ ''%}'' @ nl,
                       cs_code = [''  public const int KMax = 5;'' @ nl]\<rparr>,
                    pl_parent_classes = [], pl_flag_enums = [], pl_enums_fp = [],
                    pl_events_fp = events_on_end events_on_begin\<rparr>,
                  [''/out/_constants.i'' \<mapsto>
                     ''%pragma(csharp) modulecode=%{'' @ nl
                     @ ''  public const int KMax = 5;'' @ nl @ ''%}'' @ nl,
                   ''/out/_refcounted.i'' \<mapsto> [],
                   ''/out/_enums.i'' \<mapsto> [],
                   ''/out/_events.i'' \<mapsto> events_on_end events_on_begin]))
   \<and> ''%pragma(csharp) modulecode=%{'' @ nl @ ''  public const int KMax = 5;'' @ nl
       @ ''%}'' @ nl
     \<noteq> ''%ignore Urho3D::kMax;'' @ nl @ ''%pragma(csharp) modulecode=%{'' @ nl
       @ ''  public const int KMax = 5;'' @ nl @ ''%}'' @ nl"
proof -
  have 1: "pipeline_run 1 (\<lambda>xs. xs) (\<lambda>spelling ln. ln) (\<lambda>code. None) ''/out''
       [ConstantsVisit (kMax_node ''Urho3D::kMax'')] fresh_interpreter Map.empty
     = Some (Inr (\<lparr>pl_constants =
                      \<lparr>fp = ''%ignore Urho3D::kMax;'' @ nl @ ''%pragma(csharp) modulecode=%{'' @ nl
                             @ ''  public const int KMax = 5;'' @ nl @ ''%}'' @ nl,
                       cs_code = [''  public const int KMax = 5;'' @ nl]\<rparr>,
                    pl_parent_classes = [], pl_flag_enums = [], pl_enums_fp = [],
                    pl_events_fp = events_on_end events_on_begin\<rparr>,
                  [''/out/_constants.i'' \<mapsto>
                     ''%ignore Urho3D::kMax;'' @ nl @ ''%pragma(csharp) modulecode=%{'' @ nl
                     @ ''  public const int KMax = 5;'' @ nl @ ''%}'' @ nl,
                   ''/out/_refcounted.i'' \<mapsto> [],
                   ''/out/_enums.i'' \<mapsto> [],
                   ''/out/_events.i'' \<mapsto> events_on_end events_on_begin]))"
    unfolding pipeline_run_def kMax_first_visits sum.case pipeline_on_end_def Let_def
    by (simp only: pipeline_state.simps no_class_lines option.case sum.case out_paths
          state_after_on_end constants_on_end_kMax constants_state.simps concat_no_lines)
  have 2: "pipeline_run 1 (\<lambda>xs. xs) (\<lambda>spelling ln. ln) (\<lambda>code. None) ''/out''
       [ConstantsVisit (kMax_node ''Urho3D::kMax'')]
       \<lparr>pl_constants =
          \<lparr>fp = ''%ignore Urho3D::kMax;'' @ nl @ ''%pragma(csharp) modulecode=%{'' @ nl
                 @ ''  public const int KMax = 5;'' @ nl @ ''%}'' @ nl,
           cs_code = [''  public const int KMax = 5;'' @ nl]\<rparr>,
        pl_parent_classes = [], pl_flag_enums = [], pl_enums_fp = [],
        pl_events_fp = events_on_end events_on_begin\<rparr>
       [''/out/_constants.i'' \<mapsto>
          ''%ignore Urho3D::kMax;'' @ nl @ ''%pragma(csharp) modulecode=%{'' @ nl
          @ ''  public const int KMax = 5;'' @ nl @ ''%}'' @ nl,
        ''/out/_refcounted.i'' \<mapsto> [],
        ''/out/_enums.i'' \<mapsto> [],
        ''/out/_events.i'' \<mapsto> events_on_end events_on_begin]
     = Some (Inr (\<lparr>pl_constants =
                      \<lparr>fp = ''%ignore Urho3D::kMax;'' @ nl @ ''%pragma(csharp) modulecode=%{'' @ nl
                             @ ''  public const int KMax = 5;'' @ nl
                             @ ''  public const int KMax = 5;'' @ nl @ ''%}'' @ nl,
                       cs_code = [''  public const int KMax = 5;'' @ nl,
                                  ''  public const int KMax = 5;'' @ nl]\<rparr>,
                    pl_parent_classes = [], pl_flag_enums = [], pl_enums_fp = [],
                    pl_events_fp = events_on_end events_on_begin\<rparr>,
                  [''/out/_constants.i'' \<mapsto>
                     ''%ignore Urho3D::kMax;'' @ nl @ ''%pragma(csharp) modulecode=%{'' @ nl
                     @ ''  public const int KMax = 5;'' @ nl
                     @ ''  public const int KMax = 5;'' @ nl @ ''%}'' @ nl,
                   ''/out/_refcounted.i'' \<mapsto> [],
                   ''/out/_enums.i'' \<mapsto> [],
                   ''/out/_events.i'' \<mapsto> events_on_end events_on_begin]))"
    unfolding pipeline_run_def kMax_second_visits sum.case pipeline_on_end_def Let_def
    by (simp only: pipeline_state.simps no_class_lines option.case sum.case out_paths
          state_after_on_end constants_on_end_kMax constants_state.simps concat_no_lines
          files_overwritten)
  have 3: "pipeline_run 1 (\<lambda>xs. xs) (\<lambda>spelling ln. ln) (\<lambda>code. None) ''/out'' []
       \<lparr>pl_constants =
          \<lparr>fp = ''%ignore Urho3D::kMax;'' @ nl @ ''%pragma(csharp) modulecode=%{'' @ nl
                 @ ''  public const int KMax = 5;'' @ nl @ ''%}'' @ nl,
           cs_code = [''  public const int KMax = 5;'' @ nl]\<rparr>,
        pl_parent_classes = [], pl_flag_enums = [], pl_enums_fp = [],
        pl_events_fp = events_on_end events_on_begin\<rparr>
       [''/out/_constants.i'' \<mapsto>
          ''%ignore Urho3D::kMax;'' @ nl @ ''%pragma(csharp) modulecode=%{'' @ nl
          @ ''  public const int KMax = 5;'' @ nl @ ''%}'' @ nl,
        ''/out/_refcounted.i'' \<mapsto> [],
        ''/out/_enums.i'' \<mapsto> [],
        ''/out/_events.i'' \<mapsto> events_on_end events_on_begin]
     = Some (Inr (\<lparr>pl_constants =
                      \<lparr>fp = ''%pragma(csharp) modulecode=%{'' @ nl
                             @ ''  public const int KMax = 5;'' @ nl @ ''%}'' @ nl,
                       cs_code = [''  public const int KMax = 5;'' @ nl]\<rparr>,
                    pl_parent_classes = [], pl_flag_enums = [], pl_enums_fp = [],
                    pl_events_fp = events_on_end events_on_begin\<rparr>,
                  [''/out/_constants.i'' \<mapsto>
                     ''%pragma(csharp) modulecode=%{'' @ nl
                     @ ''  public const int KMax = 5;'' @ nl @ ''%}'' @ nl,
                   ''/out/_refcounted.i'' \<mapsto> [],
                   ''/out/_enums.i'' \<mapsto> [],
                   ''/out/_events.i'' \<mapsto> events_on_end events_on_begin]))"
    unfolding pipeline_run_def kMax_no_visits sum.case pipeline_on_end_def Let_def
    by (simp only: pipeline_state.simps no_class_lines option.case sum.case out_paths
          state_after_on_end constants_on_end_no_visit constants_state.simps concat_no_lines
          files_overwritten)
  from 1 2 constants_texts_differ 3 constants_texts_differ_no_visit show ?thesis
    by (intro conjI)
qed

end
